theory Spec2Isabelle
  imports Complex_Main "HOL-Library.Multiset" "HOL-Library.Log_Nat"
begin

section \<open>JavaScript numbers\<close>

text \<open>
  A JavaScript number is an IEEE 754 double: a finite double is modelled by the rational
  it denotes, beside the two infinities and \<^verbatim>\<open>NaN\<close>. The sign of zero is not modelled
  (a zero divisor counts as \<^verbatim>\<open>+0\<close>): no number of this program is negative.
\<close>

datatype js_number = Num rat | PosInfinity | NegInfinity | NaN

text \<open>Rounding to the nearest integer, a tie to the even one.\<close>

definition round_half_even :: "rat \<Rightarrow> int" where
  "round_half_even q =
     (let f = \<lfloor>q\<rfloor>; r = q - of_int f
      in if r < 1 / 2 then f else if 1 / 2 < r then f + 1 else if even f then f else f + 1)"

text \<open>The binary exponent of a positive rational \<open>x\<close>: the \<open>e\<close> with \<open>2 ^ e \<le> x < 2 ^ (e + 1)\<close>, found
  from the bit lengths of the numerator and of the denominator.\<close>

definition floor_log2 :: "rat \<Rightarrow> int" where
  "floor_log2 x =
     (let (a, b) = quotient_of x; d = bitlen a - bitlen b
      in if 2 powi d \<le> x then d else d - 1)"

text \<open>
  The double nearest to a rational (round to nearest, ties to even): 53 significant bits,
  the spacing \<open>2 ^ - 1074\<close> of the subnormal numbers at the least, and an infinity from
  \<open>2 ^ 1024\<close> on. The operators \<^verbatim>\<open>/\<close> and \<^verbatim>\<open>*\<close> round the exact result in this way, and
  a decimal literal such as \<^verbatim>\<open>0.3\<close> denotes the double nearest to it.
\<close>

definition round_double :: "rat \<Rightarrow> js_number" where
  "round_double x =
     (if x = 0 then Num 0
      else let e = max (floor_log2 \<bar>x\<bar> - 52) (- 1074);
               r = of_int (round_half_even (\<bar>x\<bar> / 2 powi e)) * 2 powi e
           in if 2 powi 1024 \<le> r then (if 0 < x then PosInfinity else NegInfinity)
              else Num (sgn x * r))"

fun js_div :: "js_number \<Rightarrow> js_number \<Rightarrow> js_number" where
  "js_div (Num a) (Num b) =
     (if b = 0 then (if a = 0 then NaN else if 0 < a then PosInfinity else NegInfinity)
      else round_double (a / b))"
| "js_div (Num a) PosInfinity = Num 0"
| "js_div (Num a) NegInfinity = Num 0"
| "js_div PosInfinity (Num b) = (if 0 \<le> b then PosInfinity else NegInfinity)"
| "js_div NegInfinity (Num b) = (if 0 \<le> b then NegInfinity else PosInfinity)"
| "js_div _ _ = NaN"

fun js_mul :: "js_number \<Rightarrow> js_number \<Rightarrow> js_number" where
  "js_mul (Num a) (Num b) = round_double (a * b)"
| "js_mul (Num a) PosInfinity = (if a = 0 then NaN else if 0 < a then PosInfinity else NegInfinity)"
| "js_mul (Num a) NegInfinity = (if a = 0 then NaN else if 0 < a then NegInfinity else PosInfinity)"
| "js_mul PosInfinity (Num b) = (if b = 0 then NaN else if 0 < b then PosInfinity else NegInfinity)"
| "js_mul NegInfinity (Num b) = (if b = 0 then NaN else if 0 < b then NegInfinity else PosInfinity)"
| "js_mul PosInfinity PosInfinity = PosInfinity"
| "js_mul PosInfinity NegInfinity = NegInfinity"
| "js_mul NegInfinity PosInfinity = NegInfinity"
| "js_mul NegInfinity NegInfinity = PosInfinity"
| "js_mul _ _ = NaN"

text \<open>\<^verbatim>\<open>Math.min(x, y)\<close> and \<^verbatim>\<open>x >= y\<close>.\<close>

fun Math_min :: "js_number \<Rightarrow> js_number \<Rightarrow> js_number" where
  "Math_min NaN y = NaN"
| "Math_min x NaN = NaN"
| "Math_min NegInfinity y = NegInfinity"
| "Math_min x NegInfinity = NegInfinity"
| "Math_min PosInfinity y = y"
| "Math_min x PosInfinity = x"
| "Math_min (Num a) (Num b) = Num (min a b)"

fun js_ge :: "js_number \<Rightarrow> js_number \<Rightarrow> bool" where
  "js_ge NaN y = False"
| "js_ge x NaN = False"
| "js_ge PosInfinity y = True"
| "js_ge x NegInfinity = True"
| "js_ge (Num a) (Num b) = (b \<le> a)"
| "js_ge x y = False"

section \<open>JavaScript strings\<close>

text \<open>
  A JavaScript string is a sequence of code units. It is modelled as a \<^typ>\<open>string\<close>, one
  \<^typ>\<open>char\<close> per code unit, which is exact for texts whose code units are below 256
  (ASCII and Latin-1). The white space of the regular expression class \<^verbatim>\<open>\s\<close> and of
  \<^verbatim>\<open>trim\<close> is, in that range, TAB, LF, VT, FF, CR, SPACE and NBSP.
\<close>

definition is_ws :: "char \<Rightarrow> bool" where
  "is_ws c = (c \<in> set [CHR 0x09, CHR 0x0A, CHR 0x0B, CHR 0x0C, CHR 0x0D, CHR '' '', CHR 0xA0])"

text \<open>\<^verbatim>\<open>String.prototype.toLowerCase\<close>: A-Z and the Latin-1 capitals (all of 0xC0-0xDE but
  the multiplication sign) move up by 32.\<close>

definition toLowerCase_char :: "char \<Rightarrow> char" where
  "toLowerCase_char c =
     (let n = (of_char c :: nat)
      in if (65 \<le> n \<and> n \<le> 90) \<or> (192 \<le> n \<and> n \<le> 222 \<and> n \<noteq> 215)
         then char_of (n + 32) else c)"

definition toLowerCase :: "string \<Rightarrow> string" where
  "toLowerCase s = map toLowerCase_char s"

text \<open>\<^verbatim>\<open>s.startsWith(p)\<close> and \<^verbatim>\<open>s.includes(p)\<close>, both case-sensitive.\<close>

fun startsWith :: "'a list \<Rightarrow> 'a list \<Rightarrow> bool" where
  "startsWith s [] = True"
| "startsWith [] (p # ps) = False"
| "startsWith (c # cs) (p # ps) = (c = p \<and> startsWith cs ps)"

fun str_includes :: "'a list \<Rightarrow> 'a list \<Rightarrow> bool" where
  "str_includes [] p = (p = [])"
| "str_includes (c # cs) p = (startsWith (c # cs) p \<or> str_includes cs p)"

text \<open>\<^verbatim>\<open>s.slice(0, n)\<close> for an integer \<open>n\<close>: a negative end counts from the end of the
  string.\<close>

definition slice0 :: "'a list \<Rightarrow> int \<Rightarrow> 'a list" where
  "slice0 s n = (if n < 0 then take (nat (int (length s) + n)) s else take (nat n) s)"

text \<open>\<^verbatim>\<open>s.trim()\<close>.\<close>

definition trim :: "string \<Rightarrow> string" where
  "trim s = rev (dropWhile is_ws (rev (dropWhile is_ws s)))"

text \<open>
  \<^verbatim>\<open>s.split(/\s+/)\<close>: the pieces between the maximal runs of white space, with an empty
  piece before a leading run and after a trailing one. \<open>cur\<close> is the piece being read.
\<close>

function split_ws_from :: "string \<Rightarrow> string \<Rightarrow> string list" where
  "split_ws_from cur [] = [cur]"
| "split_ws_from cur (c # cs) =
     (if is_ws c then cur # split_ws_from [] (dropWhile is_ws cs)
      else split_ws_from (cur @ [c]) cs)"
  by pat_completeness auto
termination
  by (relation "measure (\<lambda>(cur, s). length s)")
     (auto simp: less_Suc_eq_le length_dropWhile_le)

definition split_ws :: "string \<Rightarrow> string list" where
  "split_ws s = split_ws_from [] s"

text \<open>
  Matching under the flag \<^verbatim>\<open>i\<close> (without \<^verbatim>\<open>u\<close>) compares the canonical, upper-case
  forms of the two code units: a-z and the Latin-1 small letters 0xE0-0xFE (but the
  division sign) move down by 32; every other code unit below 256 only equals itself.
\<close>

definition canonicalize :: "char \<Rightarrow> char" where
  "canonicalize c =
     (let n = (of_char c :: nat)
      in if (97 \<le> n \<and> n \<le> 122) \<or> (224 \<le> n \<and> n \<le> 254 \<and> n \<noteq> 247)
         then char_of (n - 32) else c)"

fun startsWith_ci :: "string \<Rightarrow> string \<Rightarrow> bool" where
  "startsWith_ci s [] = True"
| "startsWith_ci [] (p # ps) = False"
| "startsWith_ci (c # cs) (p # ps) = (canonicalize c = canonicalize p \<and> startsWith_ci cs ps)"

text \<open>
  \<^verbatim>\<open>text.match(new RegExp(keyword, 'gi'))\<close> for a keyword of plain letters: the matches
  are found from left to right and do not overlap, the search resuming where the last
  match ended. The result counts them (\<^verbatim>\<open>null\<close> counts as none). The empty pattern
  matches once at every position, the end included.
\<close>

function match_count :: "string \<Rightarrow> string \<Rightarrow> nat" where
  "match_count kw [] = (if kw = [] then 1 else 0)"
| "match_count kw (c # cs) =
     (if startsWith_ci (c # cs) kw then Suc (match_count kw (drop (length kw - 1) cs))
      else match_count kw cs)"
  by pat_completeness auto
termination
  by (relation "measure (\<lambda>(kw, s). length s)") auto

section \<open>Keyword heuristic engine (utils/documentValidation)\<close>

definition ACADEMIC_KEYWORDS :: "string list" where
  "ACADEMIC_KEYWORDS =
     [''syllabus'', ''university'', ''semester'', ''unit'', ''marks'', ''question'', ''exam'',
      ''paper'', ''course'', ''module'', ''credit'', ''curriculum'', ''assessment'', ''topic'',
      ''chapter'']"

record keyword_count =
  count :: nat
  found :: "string list"

text \<open>\<^verbatim>\<open>countKeywordsInText\<close>. The guard \<^verbatim>\<open>!text\<close> holds of the empty string only.\<close>

definition countKeywordsInText :: "string \<Rightarrow> keyword_count" where
  "countKeywordsInText text =
     (if text = [] then \<lparr>count = 0, found = []\<rparr>
      else let lower = toLowerCase text;
               fnd = filter (\<lambda>kw. str_includes lower kw) ACADEMIC_KEYWORDS
           in \<lparr>count = length fnd, found = remdups fnd\<rparr>)"

text \<open>\<^verbatim>\<open>hasMinimumAcademicKeywords(text, firstNChars, minKeywords)\<close>.\<close>

definition hasMinimumAcademicKeywords :: "string \<Rightarrow> int \<Rightarrow> int \<Rightarrow> bool" where
  "hasMinimumAcademicKeywords text firstNChars minKeywords =
     (let slice = slice0 text firstNChars
      in minKeywords \<le> int (count (countKeywordsInText slice)))"

text \<open>
  \<^verbatim>\<open>validateDocumentContent\<close>. The two counts are integers, which a double holds exactly
  below \<open>2 ^ 53\<close>; the quotient and the product are rounded. The early return for the
  empty text has no \<^verbatim>\<open>distinctKeywords\<close> field.
\<close>

record validation =
  score :: js_number
  passed :: bool
  keywordCount :: nat
  distinctKeywords :: "nat option"

definition keywordOccurrences :: "string \<Rightarrow> nat" where
  "keywordOccurrences text = sum_list (map (\<lambda>keyword. match_count keyword text) ACADEMIC_KEYWORDS)"

definition validateDocumentContent :: "string \<Rightarrow> validation" where
  "validateDocumentContent text =
     (if text = []
      then \<lparr>score = Num 0, passed = False, keywordCount = 0, distinctKeywords = None\<rparr>
      else let words = filter (\<lambda>w. w \<noteq> []) (split_ws text);
               wordCount = length words;
               occ = keywordOccurrences text;
               sc = (if wordCount > 0
                     then Math_min (Num 100)
                            (js_mul (js_div (Num (of_nat occ)) (Num (of_nat wordCount))) (Num 100))
                     else Num 0);
               distinctCount = count (countKeywordsInText text)
           in \<lparr>score = sc, passed = (distinctCount \<ge> 2 \<and> js_ge sc (round_double (3 / 10))),
               keywordCount = occ, distinctKeywords = Some distinctCount\<rparr>)"
subsection \<open>The vocabulary of the specification\<close>

text \<open>
  The number of white-space delimited, non-empty tokens of a text: the characters that
  begin a token are counted, those that are not white and stand at the beginning of the
  text or right after a white character.
\<close>

fun token_starts :: "bool \<Rightarrow> string \<Rightarrow> nat" where
  "token_starts prev_ws [] = 0"
| "token_starts prev_ws (c # cs) =
     (if prev_ws \<and> \<not> is_ws c then 1 else 0) + token_starts (is_ws c) cs"

definition token_count :: "string \<Rightarrow> nat" where
  "token_count text = token_starts True text"

definition occurs_ci :: "string \<Rightarrow> string \<Rightarrow> bool" where
  "occurs_ci kw text = (\<exists>a w b. text = a @ w @ b \<and> toLowerCase w = kw)"

definition distinct_keywords :: "string \<Rightarrow> string set" where
  "distinct_keywords text = {kw \<in> set ACADEMIC_KEYWORDS. occurs_ci kw text}"

text \<open>
  The pattern matches of a keyword in a text, case-insensitively: \<open>pattern_matches kw text k\<close>
  holds when the text is \<open>k\<close> times a gap and a match, and a last gap, where every match is
  the keyword up to the case of its letters, no match could begin earlier (the keyword
  does not occur in the gap followed by the match without its last character), and the
  keyword does not occur in the last gap. The matches are so taken from left to right and
  do not overlap.
\<close>

inductive pattern_matches :: "string \<Rightarrow> string \<Rightarrow> nat \<Rightarrow> bool" where
  no_match: "\<not> occurs_ci kw text \<Longrightarrow> pattern_matches kw text 0"
| match: "toLowerCase w = kw \<Longrightarrow> \<not> occurs_ci kw (gap @ butlast w) \<Longrightarrow>
          pattern_matches kw rest k \<Longrightarrow> pattern_matches kw (gap @ w @ rest) (Suc k)"

text \<open>The total number of occurrences: the pattern matches of all the keywords.\<close>

definition total_occurrences :: "string \<Rightarrow> nat" where
  "total_occurrences text =
     sum_list (map (\<lambda>kw. THE k. pattern_matches kw text k) ACADEMIC_KEYWORDS)"

text \<open>The density of the specification, in exact arithmetic.\<close>

definition exact_density :: "string \<Rightarrow> rat" where
  "exact_density text =
     (if token_count text = 0 then 0
      else min 100 (100 * of_nat (total_occurrences text) / of_nat (token_count text)))"

text \<open>The density as the program computes it from the two counts, in doubles.\<close>

definition density :: "nat \<Rightarrow> nat \<Rightarrow> js_number" where
  "density occ wordCount =
     (if wordCount > 0
      then Math_min (Num 100) (js_mul (js_div (Num (of_nat occ)) (Num (of_nat wordCount))) (Num 100))
      else Num 0)"

text \<open>A keyword of small plain letters.\<close>

definition plain :: "string \<Rightarrow> bool" where
  "plain kw = (\<forall>c \<in> set kw. 97 \<le> (of_char c :: nat) \<and> (of_char c :: nat) \<le> 122)"

text \<open>The code of a canonical form, for comparing canonical forms by arithmetic.\<close>

definition canon_code :: "nat \<Rightarrow> nat" where
  "canon_code n =
     (if (97 \<le> n \<and> n \<le> 122) \<or> (224 \<le> n \<and> n \<le> 254 \<and> n \<noteq> 247) then n - 32 else n)"

text \<open>A text whose keywords come late: 5001 dashes, then "syllabus exam".\<close>

definition late_text :: string where
  "late_text = replicate 5001 CHR ''-'' @ ''syllabus exam''"

section \<open>Errors, responses and effects\<close>

text \<open>
  A thrown \<^verbatim>\<open>Error\<close> object: its message, what \<^verbatim>\<open>toString()\<close> returns, and the ad hoc
  fields \<^verbatim>\<open>code\<close>, \<^verbatim>\<open>detectedType\<close> and \<^verbatim>\<open>status\<close> the service attaches.
\<close>

record js_error =
  message :: string
  toString :: string
  code :: "string option"
  detectedType :: "string option"
  status :: "nat option"

definition new_Error :: "string \<Rightarrow> js_error" where
  "new_Error m =
     \<lparr>message = m, toString = (if m = [] then ''Error'' else ''Error: '' @ m),
      code = None, detectedType = None, status = None\<rparr>"

definition new_TypeError :: "string \<Rightarrow> js_error" where
  "new_TypeError m =
     \<lparr>message = m, toString = ''TypeError: '' @ m, code = None, detectedType = None, status = None\<rparr>"

definition new_SyntaxError :: "string \<Rightarrow> js_error" where
  "new_SyntaxError m =
     \<lparr>message = m, toString = ''SyntaxError: '' @ m, code = None, detectedType = None, status = None\<rparr>"

text \<open>\<^verbatim>\<open>error.message || error.toString()\<close>.\<close>

definition errorMessage_of :: "js_error \<Rightarrow> string" where
  "errorMessage_of error = (if message error \<noteq> [] then message error else toString error)"

text \<open>What a \<^verbatim>\<open>throw\<close> carries: \<^verbatim>\<open>throw lastError\<close> throws \<^verbatim>\<open>undefined\<close> when no attempt
  was made.\<close>

datatype thrown = Undefined | Err js_error

text \<open>
  The effects of a run, in the order they happen: a progress report, a \<^verbatim>\<open>sleep\<close> of so
  many milliseconds, a call of \<^verbatim>\<open>generateContent\<close> on a model (its name and the number of
  the attempt). The recurring elapsed-time ticker and the console are left out.
\<close>

datatype event = Progress string | Sleep nat | Call string nat

text \<open>
  One call of \<^verbatim>\<open>model.generateContent\<close>: it resolves with a response (modelled by the
  text that \<^verbatim>\<open>response.text()\<close> returns), rejects with an error, or is still pending
  when the two minute timer fires.
\<close>

datatype outcome = Resolves string | Rejects js_error | Pending

record model_handle =
  model_name :: string
  generateContent :: "nat \<Rightarrow> outcome"

text \<open>Decimal numerals, as a template literal prints a non-negative integer.\<close>

function show_nat :: "nat \<Rightarrow> string" where
  "show_nat n =
     (if n < 10 then [''0123456789'' ! n]
      else show_nat (n div 10) @ [''0123456789'' ! (n mod 10)])"
  by pat_completeness auto
termination
  by (relation "measure id") auto

definition show_int :: "int \<Rightarrow> string" where
  "show_int i = (if i < 0 then ''-'' @ show_nat (nat (- i)) else show_nat (nat i))"

section \<open>Model invocation with retry (services/geminiService)\<close>

text \<open>The two classifications of \<^verbatim>\<open>generateContentWithRetry\<close>, as the \<^verbatim>\<open>catch\<close> block
  tests them.\<close>

definition no_retry :: "string \<Rightarrow> bool" where
  "no_retry errorMessage =
     (str_includes errorMessage ''timeout'' \<or> str_includes errorMessage ''invalid'' \<or>
      str_includes errorMessage ''quota'' \<or> str_includes errorMessage ''401'' \<or>
      str_includes errorMessage ''403'')"

definition retryable :: "string \<Rightarrow> bool" where
  "retryable errorMessage =
     (str_includes errorMessage ''503'' \<or> str_includes errorMessage ''500'' \<or>
      str_includes errorMessage ''429'' \<or> str_includes errorMessage ''high demand'')"

text \<open>\<^verbatim>\<open>Promise.race\<close> of the call against the timer of 120000 ms.\<close>

definition race_timeout :: "outcome \<Rightarrow> js_error + string" where
  "race_timeout out =
     (case out of
        Resolves response \<Rightarrow> Inr response
      | Rejects error \<Rightarrow> Inl error
      | Pending \<Rightarrow> Inl (new_Error ''Request timeout''))"

definition backoff_delay :: "nat \<Rightarrow> nat" where
  "backoff_delay attempt = min (1000 * 2 ^ (attempt - 2)) 10000"

definition retrying_message :: "nat \<Rightarrow> nat \<Rightarrow> string" where
  "retrying_message attempt maxRetries =
     ''Retrying... (Attempt '' @ show_nat attempt @ ''/'' @ show_nat maxRetries @ '')''"

text \<open>What happens before the call of an attempt: nothing on the first, the progress
  report and then the sleep on a later one.\<close>

definition before_attempt :: "nat \<Rightarrow> nat \<Rightarrow> event list" where
  "before_attempt attempt maxRetries =
     (if attempt > 1
      then [Progress (retrying_message attempt maxRetries), Sleep (backoff_delay attempt)]
      else [])"

text \<open>
  The \<^verbatim>\<open>for\<close> loop of \<^verbatim>\<open>generateContentWithRetry\<close>, from the attempt \<open>attempt\<close> on, with
  the variable \<^verbatim>\<open>lastError\<close>. A retryable error leads to the next iteration both by
  \<^verbatim>\<open>continue\<close> and, on the last attempt, by leaving the \<^verbatim>\<open>catch\<close> block; the loop
  then ends and \<^verbatim>\<open>lastError\<close> is thrown.
\<close>

function generateContentWithRetry_from ::
  "model_handle \<Rightarrow> nat \<Rightarrow> nat \<Rightarrow> thrown \<Rightarrow> (thrown + string) \<times> event list" where
  "generateContentWithRetry_from model maxRetries attempt lastError =
     (if attempt \<le> maxRetries then
        (let evs = before_attempt attempt maxRetries @ [Call (model_name model) attempt]
         in case race_timeout (generateContent model attempt) of
              Inr response \<Rightarrow> (Inr response, evs)
            | Inl error \<Rightarrow>
                (let errorMessage = errorMessage_of error
                 in if no_retry errorMessage then (Inl (Err error), evs)
                    else if retryable errorMessage then
                      apsnd ((@) evs)
                        (generateContentWithRetry_from model maxRetries (Suc attempt) (Err error))
                    else (Inl (Err error), evs)))
      else (Inl lastError, []))"
  by pat_completeness auto
termination
  by (relation "measure (\<lambda>(model, maxRetries, attempt, lastError). Suc maxRetries - attempt)") auto

definition generateContentWithRetry ::
  "model_handle \<Rightarrow> nat \<Rightarrow> (thrown + string) \<times> event list" where
  "generateContentWithRetry model maxRetries =
     generateContentWithRetry_from model maxRetries 1 Undefined"

subsection \<open>The vocabulary of the specification for the retry loop\<close>

text \<open>The classification of an error by the substrings of its message.\<close>

definition fatal_substrings :: "string list" where
  "fatal_substrings = [''timeout'', ''invalid'', ''quota'', ''401'', ''403'']"

definition transient_substrings :: "string list" where
  "transient_substrings = [''503'', ''500'', ''429'', ''high demand'']"

definition has_fatal_substring :: "js_error \<Rightarrow> bool" where
  "has_fatal_substring e = (\<exists>s \<in> set fatal_substrings. str_includes (message e) s)"

definition has_transient_substring :: "js_error \<Rightarrow> bool" where
  "has_transient_substring e = (\<exists>s \<in> set transient_substrings. str_includes (message e) s)"

definition classified_transient :: "js_error \<Rightarrow> bool" where
  "classified_transient e = (has_transient_substring e \<and> \<not> has_fatal_substring e)"

text \<open>The attempt \<open>k\<close> on a model fails with an error classified transient.\<close>

definition fails_transiently :: "model_handle \<Rightarrow> nat \<Rightarrow> bool" where
  "fails_transiently model k =
     (case generateContent model k of Rejects e \<Rightarrow> classified_transient e | _ \<Rightarrow> False)"

text \<open>
  The effects of the attempts \<open>1, \<dots>, n\<close> made in a row: before every attempt but the
  first, the progress report and then the wait of \<open>min(1000 * 2^(k-2), 10000)\<close> ms.
\<close>

definition retry_log :: "string \<Rightarrow> nat \<Rightarrow> nat \<Rightarrow> event list" where
  "retry_log name maxAttempts n =
     concat (map (\<lambda>k. (if k > 1
                        then [Progress (retrying_message k maxAttempts),
                              Sleep (min (1000 * 2 ^ (k - 2)) 10000)]
                        else []) @ [Call name k]) [1..<Suc n])"

text \<open>The attempts made on a model, read off a log.\<close>

definition attempts_of :: "string \<Rightarrow> event list \<Rightarrow> nat list" where
  "attempts_of name evs = concat (map (\<lambda>ev. case ev of Call m k \<Rightarrow> if m = name then [k] else [] | _ \<Rightarrow> []) evs)"

definition sleeps_of :: "event list \<Rightarrow> nat list" where
  "sleeps_of evs = concat (map (\<lambda>ev. case ev of Sleep ms \<Rightarrow> [ms] | _ \<Rightarrow> []) evs)"

text \<open>Models for the scenarios of the specification: two transient failures and then a
  success; a server that is busy at every attempt; a rejected credential; an error whose
  message has both a fatal and a transient substring.\<close>

definition flaky_model :: model_handle where
  "flaky_model =
     \<lparr>model_name = ''gemini-1.5-flash'',
      generateContent =
        (\<lambda>k. if k < 3 then Rejects (new_Error ''503 Service Unavailable'') else Resolves ''{}'')\<rparr>"

definition busy_model :: model_handle where
  "busy_model =
     \<lparr>model_name = ''gemini-1.5-flash'',
      generateContent = (\<lambda>k. Rejects (new_Error ''429 Too Many Requests''))\<rparr>"

definition denied_model :: model_handle where
  "denied_model =
     \<lparr>model_name = ''gemini-1.5-pro'',
      generateContent = (\<lambda>k. Rejects (new_Error ''401 Unauthorized''))\<rparr>"

definition mixed_model :: model_handle where
  "mixed_model =
     \<lparr>model_name = ''gemini-1.5-pro'',
      generateContent =
        (\<lambda>k. if k < 2 then Rejects (new_Error ''500 Internal Server Error'')
             else Rejects (new_Error ''503 invalid response from upstream''))\<rparr>"

section \<open>Response interpreter (services/geminiService)\<close>

text \<open>The values \<^verbatim>\<open>JSON.parse\<close> returns. An object is its list of properties, the value of
  a key being the one \<^const>\<open>map_of\<close> finds.\<close>

datatype json =
    JNull
  | JBool bool
  | JNumber rat
  | JString string
  | JArray "json list"
  | JObject "(string \<times> json) list"

text \<open>Truthiness, as \<^verbatim>\<open>&&\<close> and \<^verbatim>\<open>||\<close> test it.\<close>

fun truthy :: "json \<Rightarrow> bool" where
  "truthy JNull = False"
| "truthy (JBool b) = b"
| "truthy (JNumber r) = (r \<noteq> 0)"
| "truthy (JString s) = (s \<noteq> [])"
| "truthy (JArray xs) = True"
| "truthy (JObject kvs) = True"

text \<open>The properties \<^verbatim>\<open>error\<close> and \<^verbatim>\<open>reason\<close> of a parsed value, \<^verbatim>\<open>undefined\<close> being
  \<^const>\<open>None\<close>: only an object has them.\<close>

fun get_property :: "json \<Rightarrow> string \<Rightarrow> json option" where
  "get_property (JObject kvs) k = map_of kvs k"
| "get_property v k = None"

text \<open>
  The pattern \<^verbatim>\<open>/detected:\s*([^)]+)/\<close>. After the literal, the greedy \<^verbatim>\<open>\s*\<close> takes the
  run of white space; the group then takes the characters up to the next closing
  parenthesis. Where the run is followed by a parenthesis or by the end of the string,
  \<^verbatim>\<open>\s*\<close> gives its last character back to the group. \<open>detected_group\<close> takes the text
  after the literal and returns the group; the search moves on to the right where the
  pattern does not match.
\<close>

definition detected_group :: "string \<Rightarrow> string option" where
  "detected_group rest =
     (let ws = takeWhile is_ws rest; after = dropWhile is_ws rest
      in if after \<noteq> [] \<and> hd after \<noteq> CHR 0x29
         then Some (takeWhile (\<lambda>c. c \<noteq> CHR 0x29) after)
         else if ws \<noteq> [] then Some [last ws]
         else None)"

fun match_detected :: "string \<Rightarrow> string option" where
  "match_detected [] = None"
| "match_detected (c # cs) =
     (if startsWith (c # cs) ''detected:''
      then (case detected_group (drop 9 (c # cs)) of
              Some g \<Rightarrow> Some g
            | None \<Rightarrow> match_detected cs)
      else match_detected cs)"

text \<open>\<^verbatim>\<open>(reason || '').match(/detected:\s*([^)]+)/)?.[1]?.trim() || 'non-academic document'\<close>
  for a string \<open>reason\<close>.\<close>

definition detected_label :: "string \<Rightarrow> string" where
  "detected_label reason =
     (case match_detected reason of
        None \<Rightarrow> ''non-academic document''
      | Some g \<Rightarrow> if trim g = [] then ''non-academic document'' else trim g)"

text \<open>
  The pattern of a fenced block, three backquotes, an optional \<^verbatim>\<open>json\<close>, \<^verbatim>\<open>\s*\<close>, a lazy
  group, \<^verbatim>\<open>\s*\<close> and three backquotes: the group ends at the first position from which
  white space and then a fence follow.
\<close>

definition fence :: string where
  "fence = [CHR 0x60, CHR 0x60, CHR 0x60]"

fun lazy_until_fence :: "string \<Rightarrow> string option" where
  "lazy_until_fence [] = None"
| "lazy_until_fence (c # cs) =
     (if startsWith (dropWhile is_ws (c # cs)) fence then Some []
      else map_option ((#) c) (lazy_until_fence cs))"

text \<open>The text after an opening fence: the group, with \<^verbatim>\<open>json\<close> taken if it is there and,
  failing that, without.\<close>

definition fence_body :: "string \<Rightarrow> string option" where
  "fence_body rest =
     (case (if startsWith rest ''json'' then lazy_until_fence (dropWhile is_ws (drop 4 rest))
            else None) of
        Some g \<Rightarrow> Some g
      | None \<Rightarrow> lazy_until_fence (dropWhile is_ws rest))"

fun match_fence :: "string \<Rightarrow> string option" where
  "match_fence [] = None"
| "match_fence (c # cs) =
     (if startsWith (c # cs) fence
      then (case fence_body (drop 3 (c # cs)) of
              Some g \<Rightarrow> Some g
            | None \<Rightarrow> match_fence cs)
      else match_fence cs)"

text \<open>The pattern \<^verbatim>\<open>/\{[\s\S]*\}/\<close>: from the first opening brace to the last closing one
  after it.\<close>

definition match_braces :: "string \<Rightarrow> string option" where
  "match_braces s =
     (let rest = dropWhile (\<lambda>c. c \<noteq> CHR 0x7B) s
      in if rest = [] \<or> CHR 0x7D \<notin> set (tl rest) then None
         else Some (rev (dropWhile (\<lambda>c. c \<noteq> CHR 0x7D) (rev rest))))"

definition INVALID_DOCUMENT :: string where
  "INVALID_DOCUMENT = ''INVALID_DOCUMENT''"

definition unrelated_message :: string where
  "unrelated_message = ''The file appears to be unrelated to academic coursework.''"

text \<open>
  What follows \<^verbatim>\<open>JSON.parse\<close> in both \<^verbatim>\<open>try\<close> blocks: the rejection the model reports is
  thrown as an error with the code \<^verbatim>\<open>INVALID_DOCUMENT\<close>, any other value is returned.
  \<^verbatim>\<open>(analysis.reason || '')\<close> has a method \<^verbatim>\<open>match\<close> only when it is a string; on any other
  value the call throws a \<^verbatim>\<open>TypeError\<close> (its wording is the engine's), before the error
  object is thrown.
\<close>

definition check_rejection :: "json \<Rightarrow> js_error + json" where
  "check_rejection analysis =
     (if truthy analysis \<and> get_property analysis ''error'' = Some (JString INVALID_DOCUMENT)
      then (case (case get_property analysis ''reason'' of
                    Some reason \<Rightarrow> if truthy reason then reason else JString []
                  | None \<Rightarrow> JString []) of
              JString reason \<Rightarrow>
                Inl \<lparr>message = (if reason = [] then unrelated_message else reason),
                     toString = ''Error: '' @ (if reason = [] then unrelated_message else reason),
                     code = Some INVALID_DOCUMENT,
                     detectedType = Some (detected_label reason),
                     status = None\<rparr>
            | _ \<Rightarrow> Inl (new_TypeError ''(intermediate value).match is not a function''))
      else Inr analysis)"

text \<open>\<^verbatim>\<open>JSON.parse\<close> is the platform's: the parameter \<open>parse\<close> returns the value or the message
  of the \<^verbatim>\<open>SyntaxError\<close>.\<close>

definition parse_and_check :: "(string \<Rightarrow> string + json) \<Rightarrow> string \<Rightarrow> js_error + json" where
  "parse_and_check parse s =
     (case parse s of
        Inl m \<Rightarrow> Inl (new_SyntaxError m)
      | Inr analysis \<Rightarrow> check_rejection analysis)"

definition parse_failure :: js_error where
  "parse_failure =
     new_Error ''Failed to parse JSON response. The AI response may not be in the correct format.''"

text \<open>\<^verbatim>\<open>processResponse\<close>, on the text of the response.\<close>

definition processResponse :: "(string \<Rightarrow> string + json) \<Rightarrow> string \<Rightarrow> js_error + json" where
  "processResponse parse text =
     (let jsonText = (case match_fence text of Some inner \<Rightarrow> inner | None \<Rightarrow> text)
      in case parse_and_check parse (trim jsonText) of
           Inr analysis \<Rightarrow> Inr analysis
         | Inl parseError \<Rightarrow>
             if code parseError = Some INVALID_DOCUMENT then Inl parseError
             else (case match_braces jsonText of
                     Some jsonObject \<Rightarrow>
                       (case parse_and_check parse jsonObject of
                          Inr analysis \<Rightarrow> Inr analysis
                        | Inl e \<Rightarrow>
                            if code e = Some INVALID_DOCUMENT then Inl e else Inl parse_failure)
                   | None \<Rightarrow> Inl parseError))"

subsection \<open>The vocabulary of the specification for the interpreter\<close>

text \<open>The parsed value is an object whose \<^verbatim>\<open>error\<close> field is the sentinel.\<close>

definition is_rejection :: "json \<Rightarrow> bool" where
  "is_rejection analysis = (get_property analysis ''error'' = Some (JString INVALID_DOCUMENT))"

text \<open>The reason as a text: the string itself, the empty text when the field is absent or
  falsy, and nothing when it holds a truthy value that is not a string.\<close>

definition reason_text :: "json \<Rightarrow> string option" where
  "reason_text analysis =
     (case get_property analysis ''reason'' of
        None \<Rightarrow> Some []
      | Some (JString s) \<Rightarrow> Some s
      | Some v \<Rightarrow> if truthy v then None else Some [])"

text \<open>The candidate JSON text: the inside of the fenced block when there is one.\<close>

definition candidate :: "string \<Rightarrow> string" where
  "candidate text = (case match_fence text of Some inner \<Rightarrow> inner | None \<Rightarrow> text)"

text \<open>Two responses of the model and what \<^verbatim>\<open>JSON.parse\<close> makes of them: the rejection of the
  specification's scenario, and a rejection whose reason is an array.\<close>

definition train_ticket_text :: string where
  \<open>train_ticket_text = ''{"error":"INVALID_DOCUMENT","reason":"... (detected: Train Ticket)"}''\<close>

definition train_ticket_value :: json where
  "train_ticket_value =
     JObject [(''error'', JString ''INVALID_DOCUMENT''),
              (''reason'', JString ''... (detected: Train Ticket)'')]"

definition array_reason_text :: string where
  \<open>array_reason_text = ''{"error":"INVALID_DOCUMENT","reason":["detected: Train Ticket"]}''\<close>

definition array_reason_value :: json where
  "array_reason_value =
     JObject [(''error'', JString ''INVALID_DOCUMENT''),
              (''reason'', JArray [JString ''detected: Train Ticket''])]"

definition example_parse :: "string \<Rightarrow> string + json" where
  "example_parse s =
     (if s = train_ticket_text then Inr train_ticket_value
      else if s = array_reason_text then Inr array_reason_value
      else Inl ''Unexpected token'')"

section \<open>Text extractor (utils/pdfTextExtractor)\<close>

text \<open>
  An uploaded file: its name and media type, what the PDF decoder makes of it (the text
  items of every page, in order, or nothing when decoding throws), and the base64 payload
  that \<^verbatim>\<open>FileReader\<close> delivers (or nothing when reading fails).
\<close>

record uploaded_file =
  file_name :: string
  file_type :: string
  pdf_pages :: "string list list option"
  base64 :: "string option"

text \<open>\<^verbatim>\<open>strings.join(sep)\<close>.\<close>

fun join :: "string list \<Rightarrow> string \<Rightarrow> string" where
  "join [] sep = []"
| "join [x] sep = x"
| "join (x # y # ys) sep = x @ sep @ join (y # ys) sep"

text \<open>The loop over the pages of \<^verbatim>\<open>extractTextFromPdf\<close>, with the variable \<^verbatim>\<open>text\<close>.\<close>

fun extract_pages :: "string list list \<Rightarrow> nat \<Rightarrow> string \<Rightarrow> string" where
  "extract_pages [] maxChars text = text"
| "extract_pages (items # pages) maxChars text =
     (if length text < maxChars
      then (let text' = text @ join (filter (\<lambda>s. s \<noteq> []) items) '' '' @ [CHR 0x0A]
            in if length text' \<ge> maxChars then text' else extract_pages pages maxChars text')
      else text)"

text \<open>\<^verbatim>\<open>extractTextFromPdf(file, maxChars)\<close>; \<^const>\<open>None\<close> when it throws.\<close>

definition extractTextFromPdf :: "uploaded_file \<Rightarrow> nat \<Rightarrow> string option" where
  "extractTextFromPdf file maxChars =
     (case pdf_pages file of
        None \<Rightarrow> None
      | Some pages \<Rightarrow> Some (slice0 (extract_pages pages maxChars []) (int maxChars)))"

section \<open>Strategy orchestrator (services/geminiService)\<close>

text \<open>The request: the two inline attachments, data and media type (the prompt is a
  constant). The environment of a run: the API key, the platform's \<^verbatim>\<open>JSON.parse\<close>, and
  what the service answers to a call, given the model's name, the request and the number
  of the attempt on that model.\<close>

type_synonym inline_data = "string \<times> string"

type_synonym request = "inline_data \<times> inline_data"

record environment =
  API_KEY :: "string option"
  JSON_parse :: "string \<Rightarrow> string + json"
  service :: "string \<Rightarrow> request \<Rightarrow> nat \<Rightarrow> outcome"

definition modelsToTry :: "(string \<times> string) list" where
  "modelsToTry =
     [(''gemini-3-flash-preview'', ''Gemini 3 Flash''),
      (''gemini-1.5-flash'', ''Gemini 1.5 Flash''),
      (''gemini-1.5-pro'', ''Gemini 1.5 Pro'')]"

text \<open>The test of both \<^verbatim>\<open>catch\<close> blocks of the loop over the models.\<close>

definition high_demand :: "string \<Rightarrow> bool" where
  "high_demand errorMessage =
     (str_includes errorMessage ''503'' \<or> str_includes errorMessage ''high demand'' \<or>
      str_includes errorMessage ''currently experiencing'')"

definition all_unavailable :: js_error where
  "all_unavailable = new_Error ''All models are currently unavailable. Please try again later.''"

text \<open>The progress reports at the head of an iteration, and what the \<^verbatim>\<open>catch\<close> blocks do
  before \<^verbatim>\<open>continue\<close>.\<close>

definition announce :: "string \<Rightarrow> event list" where
  "announce label =
     [Progress (''Step 2: Analyzing documents with '' @ label @ ''...''),
      Progress ''Step 3: Generating Priority Matrix...'']"

definition unavailable :: "string \<Rightarrow> event list" where
  "unavailable label =
     [Progress (label @ '' is unavailable. Trying fallback model...''), Sleep 2000]"

text \<open>
  The inner \<^verbatim>\<open>try\<close> block on one model: \<^verbatim>\<open>generateContentWithRetry\<close> with three attempts on
  a new handle, then \<^verbatim>\<open>processResponse\<close>. The result is the analysis or what the \<^verbatim>\<open>catch\<close>
  block receives as \<^verbatim>\<open>apiError\<close>. With three attempts \<^verbatim>\<open>generateContentWithRetry\<close> never
  throws \<^verbatim>\<open>undefined\<close>; reading the message of \<^verbatim>\<open>undefined\<close> would throw a \<^verbatim>\<open>TypeError\<close>.
\<close>

definition try_block :: "environment \<Rightarrow> request \<Rightarrow> string \<Rightarrow> (js_error + json) \<times> event list" where
  "try_block env content name =
     (let model = \<lparr>model_name = name, generateContent = service env name content\<rparr>;
          attempt = generateContentWithRetry model 3
      in (case fst attempt of
            Inr response \<Rightarrow> processResponse (JSON_parse env) response
          | Inl (Err apiError) \<Rightarrow> Inl apiError
          | Inl Undefined \<Rightarrow> Inl (new_TypeError ''Cannot read properties of undefined''),
          snd attempt))"

text \<open>
  The loop over \<^verbatim>\<open>modelsToTry\<close>, with the variable \<^verbatim>\<open>lastError\<close>. An error that is not of
  high demand is thrown by the inner \<^verbatim>\<open>catch\<close>, caught by the outer one, fails the same
  test there and is thrown again.
\<close>

fun try_models ::
  "environment \<Rightarrow> request \<Rightarrow> (string \<times> string) list \<Rightarrow> js_error option \<Rightarrow>
     (js_error + json) \<times> event list" where
  "try_models env content [] lastError =
     (Inl (case lastError of Some e \<Rightarrow> e | None \<Rightarrow> all_unavailable), [])"
| "try_models env content ((name, label) # rest) lastError =
     (let evs = announce label @ snd (try_block env content name)
      in case fst (try_block env content name) of
           Inr analysis \<Rightarrow> (Inr analysis, evs)
         | Inl apiError \<Rightarrow>
             if high_demand (errorMessage_of apiError)
             then apsnd ((@) (evs @ unavailable label))
                    (try_models env content rest (Some apiError))
             else (Inl apiError, evs))"

text \<open>The outermost \<^verbatim>\<open>catch\<close>: the error as the caller gets it.\<close>

definition normalize_error :: "js_error \<Rightarrow> js_error" where
  "normalize_error error =
     (if code error = Some INVALID_DOCUMENT then error
      else let errorMessage = errorMessage_of error
           in if str_includes errorMessage ''timeout''
              then new_Error ''Request timeout: Analysis is taking longer than expected. Please try again with smaller PDFs.''
              else if str_includes errorMessage ''quota'' \<or> str_includes errorMessage ''429''
              then new_Error ''API quota exceeded. Please try again later.''
              else if str_includes errorMessage ''invalid'' \<or> str_includes errorMessage ''401'' \<or>
                      str_includes errorMessage ''403''
              then new_Error ''Invalid API key or request. Please check your configuration.''
              else if str_includes errorMessage ''503'' \<or> str_includes errorMessage ''high demand'' \<or>
                      str_includes errorMessage ''currently experiencing''
              then new_Error ''The AI model is currently experiencing high demand. Please wait a moment and try again. The app will automatically retry with fallback models.''
              else if str_includes errorMessage ''all models''
              then new_Error ''All AI models are currently unavailable due to high demand. Please try again in a few minutes.''
              else new_Error (''Failed to analyze documents: '' @ errorMessage))"

text \<open>The error of the gate, and what a failed \<^verbatim>\<open>FileReader\<close> and a missing key throw.\<close>

definition gate_error :: js_error where
  "gate_error =
     (new_Error ''Uploaded file does not appear to be a valid Syllabus or Question Paper.'')
       \<lparr>code := Some INVALID_DOCUMENT, status := Some 400\<rparr>"

definition reader_error :: js_error where
  "reader_error =
     \<lparr>message = [], toString = ''[object ProgressEvent]'', code = None, detectedType = None,
      status = None\<rparr>"

definition missing_key_error :: js_error where
  "missing_key_error =
     new_Error ''VITE_GEMINI_API_KEY is not set. Add your API key to the .env file.''"

text \<open>The text the gate checks.\<close>

definition combinedText :: "uploaded_file \<Rightarrow> uploaded_file \<Rightarrow> string" where
  "combinedText syllabusFile pyqFile =
     (let syllabusText = (case extractTextFromPdf syllabusFile 4000 of Some t \<Rightarrow> t | None \<Rightarrow> []);
          pyqText = (case extractTextFromPdf pyqFile 4000 of Some t \<Rightarrow> t | None \<Rightarrow> [])
      in slice0 (syllabusText @ [CHR 0x0A] @ pyqText) 8000)"

text \<open>\<^verbatim>\<open>analyzeExamStrategy\<close>: what it returns or throws, and the effects of the run.\<close>

definition analyzeExamStrategy ::
  "environment \<Rightarrow> uploaded_file \<Rightarrow> uploaded_file \<Rightarrow> (js_error + json) \<times> event list" where
  "analyzeExamStrategy env syllabusFile pyqFile =
     (let step1 = [Progress ''Step 1: Extracting PDFs...''];
          validation = validateDocumentContent (combinedText syllabusFile pyqFile)
      in if \<not> passed validation then (Inl (normalize_error gate_error), step1)
         else (case (base64 syllabusFile, base64 pyqFile) of
                 (Some syllabusData, Some pyqData) \<Rightarrow>
                   (case API_KEY env of
                      None \<Rightarrow> (Inl (normalize_error missing_key_error), step1)
                    | Some key \<Rightarrow>
                        if trim key = [] then (Inl (normalize_error missing_key_error), step1)
                        else (case try_models env
                                     ((syllabusData, file_type syllabusFile),
                                      (pyqData, file_type pyqFile)) modelsToTry None of
                                (Inr analysis, evs) \<Rightarrow> (Inr analysis, step1 @ evs)
                              | (Inl error, evs) \<Rightarrow> (Inl (normalize_error error), step1 @ evs)))
               | _ \<Rightarrow> (Inl (normalize_error reader_error), step1)))"

subsection \<open>The vocabulary of the specification for the orchestrator\<close>

text \<open>The text extracted from a file with the budget of 4000 characters, empty when the
  extraction fails.\<close>

definition extracted_or_empty :: "uploaded_file \<Rightarrow> string" where
  "extracted_or_empty file = (case extractTextFromPdf file 4000 of Some t \<Rightarrow> t | None \<Rightarrow> [])"




text \<open>The high-demand message of the outermost \<^verbatim>\<open>catch\<close>.\<close>

definition high_demand_message :: string where
  "high_demand_message =
     ''The AI model is currently experiencing high demand. Please wait a moment and try again. The app will automatically retry with fallback models.''"

text \<open>Files and environments for the scenarios: a syllabus with a text layer, a scan
  without one, a parser for the answer \<^verbatim>\<open>[]\<close>, and services that answer 503, or 429, to
  every call, or 503 (with or without a fatal word) on the first model only, or the
  answer at once.\<close>

definition syllabus_file :: uploaded_file where
  "syllabus_file =
     \<lparr>file_name = ''syllabus.pdf'', file_type = ''application/pdf'',
      pdf_pages = Some [[''Syllabus'', [], ''Unit 1 exam''], [''marks'']],
      base64 = Some ''JVBERi0x''\<rparr>"

definition scanned_file :: uploaded_file where
  "scanned_file =
     \<lparr>file_name = ''scan.pdf'', file_type = ''application/pdf'',
      pdf_pages = None, base64 = Some ''JVBERi0y''\<rparr>"

definition array_parse :: "string \<Rightarrow> string + json" where
  "array_parse s = (if s = ''[]'' then Inr (JArray []) else Inl ''Unexpected token'')"

definition env_of :: "(string \<Rightarrow> request \<Rightarrow> nat \<Rightarrow> outcome) \<Rightarrow> environment" where
  "env_of svc = \<lparr>API_KEY = Some ''key'', JSON_parse = array_parse, service = svc\<rparr>"





definition answering_service :: "string \<Rightarrow> request \<Rightarrow> nat \<Rightarrow> outcome" where
  "answering_service name content k = Resolves ''[]''"

text \<open>The request of the scenarios: the scan as the syllabus, the syllabus as the papers.\<close>

definition scenario_content :: request where
  "scenario_content = ((''JVBERi0y'', ''application/pdf''), (''JVBERi0x'', ''application/pdf''))"

section \<open>Upload gate (components/PDFDropzone)\<close>

text \<open>
  The state of a dropzone: the slot \<^verbatim>\<open>file\<close> of the parent, which \<^verbatim>\<open>onFileSelect\<close> sets, and
  the component's own \<^verbatim>\<open>isChecking\<close>, \<^verbatim>\<open>showAcademicWarning\<close> and \<^verbatim>\<open>pendingFile\<close>.
\<close>

record dropzone =
  slot :: "uploaded_file option"
  isChecking :: bool
  showAcademicWarning :: bool
  pendingFile :: "uploaded_file option"

text \<open>\<^verbatim>\<open>s.endsWith(p)\<close>.\<close>

definition endsWith :: "string \<Rightarrow> string \<Rightarrow> bool" where
  "endsWith s p = startsWith (rev s) (rev p)"

text \<open>\<^verbatim>\<open>validateAndSetFile(selectedFile)\<close>, from the selection to the end of the
  \<^verbatim>\<open>finally\<close> block.\<close>

definition validateAndSetFile :: "dropzone \<Rightarrow> uploaded_file option \<Rightarrow> dropzone" where
  "validateAndSetFile s selectedFile =
     (case selectedFile of
        None \<Rightarrow> s
      | Some f \<Rightarrow>
          if \<not> endsWith (toLowerCase (file_name f)) ''.pdf'' then s\<lparr>slot := None\<rparr>
          else (let s1 = s\<lparr>isChecking := True, showAcademicWarning := False, pendingFile := None\<rparr>;
                    s2 = (case extractTextFromPdf f 1500 of
                            Some text \<Rightarrow>
                              if hasMinimumAcademicKeywords text 1000 2
                              then s1\<lparr>slot := Some f\<rparr>
                              else s1\<lparr>pendingFile := Some f, showAcademicWarning := True\<rparr>
                          | None \<Rightarrow> s1\<lparr>slot := Some f\<rparr>)
                in s2\<lparr>isChecking := False\<rparr>))"

definition handleConfirmAnyway :: "dropzone \<Rightarrow> dropzone" where
  "handleConfirmAnyway s =
     (case pendingFile s of
        Some f \<Rightarrow> s\<lparr>slot := Some f, pendingFile := None, showAcademicWarning := False\<rparr>
      | None \<Rightarrow> s)"

definition handleCancelWarning :: "dropzone \<Rightarrow> dropzone" where
  "handleCancelWarning s = s\<lparr>pendingFile := None, showAcademicWarning := False, slot := None\<rparr>"

text \<open>What the component shows: the warning with its two buttons, the spinner, the
  accepted file, or the empty zone.\<close>

datatype view = Warning uploaded_file | Checking | Ready uploaded_file | Empty

definition render :: "dropzone \<Rightarrow> view" where
  "render s =
     (case (showAcademicWarning s, pendingFile s) of
        (True, Some f) \<Rightarrow> Warning f
      | _ \<Rightarrow> if isChecking s then Checking
             else (case slot s of Some f \<Rightarrow> Ready f | None \<Rightarrow> Empty))"

text \<open>Files for the scenarios: a receipt with a text layer but no keyword.\<close>

definition receipt_file :: uploaded_file where
  "receipt_file =
     \<lparr>file_name = ''Receipt.PDF'', file_type = ''application/pdf'',
      pdf_pages = Some [[''total amount due'', ''thank you for riding'']],
      base64 = Some ''JVBERi0z''\<rparr>"

definition empty_dropzone :: dropzone where
  "empty_dropzone =
     \<lparr>slot = None, isChecking = False, showAcademicWarning = False, pendingFile = None\<rparr>"

section \<open>Markdown export (hooks/useMarkdownExport)\<close>

record topic =
  topic_name :: string
  confidence :: int
  effort :: string
  reward :: string
  frequency :: int
  priority :: "string option"
  keyConcepts :: "string list option"

record summary_block =
  totalTopics :: int
  highPriorityCount :: int
  lowEffortHighReward :: int

record analysis_result =
  topics :: "topic list option"
  summary :: "summary_block option"

text \<open>The chunks that the statements \<^verbatim>\<open>markdown += ...\<close> append, in order. The star is
  U+2B50, written as the three bytes of its UTF-8 encoding in the exported file.\<close>

definition star_marker :: string where
  "star_marker =
     ''- '' @ [CHR 0xE2, CHR 0xAD, CHR 0x90] @ '' **Low Effort, High Reward Topic**'' @ [CHR 0x0A]"

definition header_chunks :: "string \<Rightarrow> analysis_result \<Rightarrow> string list" where
  "header_chunks today analysis =
     [''# NITP Exam Priority List'' @ [CHR 0x0A, CHR 0x0A],
      ''*Generated on '' @ today @ ''*'' @ [CHR 0x0A, CHR 0x0A]] @
     (case summary analysis of
        Some s \<Rightarrow>
          [''## Summary'' @ [CHR 0x0A, CHR 0x0A],
           ''- **Total Topics:** '' @ show_int (totalTopics s) @ [CHR 0x0A],
           ''- **High Priority Topics:** '' @ show_int (highPriorityCount s) @ [CHR 0x0A],
           ''- **Low Effort, High Reward Topics:** '' @ show_int (lowEffortHighReward s) @
             [CHR 0x0A, CHR 0x0A]]
      | None \<Rightarrow> []) @
     [''## Priority List'' @ [CHR 0x0A, CHR 0x0A]]"

text \<open>The body of \<^verbatim>\<open>forEach\<close> for the topic at \<open>index\<close>.\<close>

definition topic_section :: "nat \<Rightarrow> topic \<Rightarrow> string list" where
  "topic_section index topic =
     [''### '' @ show_nat (index + 1) @ ''. '' @ topic_name topic @ [CHR 0x0A, CHR 0x0A],
      ''- **Confidence Score:** '' @ show_int (confidence topic) @ ''%'' @ [CHR 0x0A],
      ''- **Effort Level:** '' @ effort topic @ [CHR 0x0A],
      ''- **Reward Level:** '' @ reward topic @ [CHR 0x0A],
      ''- **Frequency:** '' @ show_int (frequency topic) @ '' times'' @ [CHR 0x0A]] @
     (case priority topic of
        Some p \<Rightarrow> if p \<noteq> [] then [''- **Priority:** '' @ p @ [CHR 0x0A]] else []
      | None \<Rightarrow> []) @
     (case keyConcepts topic of
        Some ks \<Rightarrow>
          if length ks > 0 then [''- **Key Concepts:** '' @ join ks '', '' @ [CHR 0x0A]] else []
      | None \<Rightarrow> []) @
     (if effort topic = ''Low'' \<and> reward topic = ''High'' then [star_marker] else []) @
     [[CHR 0x0A]]"

text \<open>\<^verbatim>\<open>[...analysis.topics].sort((a, b) => b.confidence - a.confidence)\<close>; the sort of an
  array is stable.\<close>

definition sortedTopics :: "topic list \<Rightarrow> topic list" where
  "sortedTopics ts = sort_key (\<lambda>t. - confidence t) ts"

text \<open>
  \<^verbatim>\<open>exportToMarkdown(analysis)\<close>: the text of the file that is downloaded, or nothing when
  there is no data to export. \<open>today\<close> is what \<^verbatim>\<open>new Date().toLocaleDateString()\<close> returns at
  the time of the call.
\<close>

definition exportToMarkdown :: "string \<Rightarrow> analysis_result option \<Rightarrow> string option" where
  "exportToMarkdown today analysis =
     (case analysis of
        None \<Rightarrow> None
      | Some a \<Rightarrow>
          (case topics a of
             None \<Rightarrow> None
           | Some ts \<Rightarrow>
               Some (concat (header_chunks today a @
                       concat (map (\<lambda>(index, topic). topic_section index topic)
                                 (enumerate 0 (sortedTopics ts)))))))"

text \<open>An analysis for the scenarios.\<close>

definition sample_topics :: "topic list" where
  "sample_topics =
     [\<lparr>topic_name = ''Graphs'', confidence = 70, effort = ''High'', reward = ''High'',
        frequency = 3, priority = None, keyConcepts = Some [''BFS'', ''DFS'']\<rparr>,
      \<lparr>topic_name = ''Hashing'', confidence = 92, effort = ''Low'', reward = ''High'',
        frequency = 5, priority = Some ''High'', keyConcepts = None\<rparr>]"

definition sample_analysis :: analysis_result where
  "sample_analysis =
     \<lparr>topics = Some sample_topics,
      summary = Some \<lparr>totalTopics = 2, highPriorityCount = 1, lowEffortHighReward = 1\<rparr>\<rparr>"

section \<open>Properties of the arithmetic of doubles\<close>

lemma round_half_even_nonneg: "0 \<le> q \<Longrightarrow> 0 \<le> round_half_even q"
  by (auto simp: round_half_even_def Let_def)

lemma round_half_even_error: "\<bar>of_int (round_half_even q) - q\<bar> \<le> 1 / 2"
  unfolding round_half_even_def Let_def
  by (auto simp: abs_if) linarith+

lemma round_half_even_le: "q \<le> of_int n \<Longrightarrow> round_half_even q \<le> n"
  unfolding round_half_even_def Let_def
  by (auto simp: not_less) linarith+

lemma floor_log2_bounds:
  assumes "0 < x"
  shows "2 powi floor_log2 x \<le> x \<and> x < 2 powi (floor_log2 x + 1)"
proof -
  obtain a b where q: "quotient_of x = (a, b)" by (cases "quotient_of x")
  then have b: "0 < b" and x: "x = of_int a / of_int b"
    using quotient_of_denom_pos[OF q] quotient_of_div[OF q] by simp_all
  with assms have a: "0 < a"
    by (simp add: zero_less_divide_iff)
  define la lb where "la = bitlen a" and "lb = bitlen b"
  from bitlen_bounds[OF a] have a1: "2 ^ nat (la - 1) \<le> a" and a2: "a < 2 ^ nat la"
    by (simp_all add: la_def)
  from bitlen_bounds[OF b] have b1: "2 ^ nat (lb - 1) \<le> b" and b2: "b < 2 ^ nat lb"
    by (simp_all add: lb_def)
  have la: "1 \<le> la" using a by (simp add: la_def bitlen_alt_def)
  have lb: "1 \<le> lb" using b by (simp add: lb_def bitlen_alt_def)
  have ra1: "(2::rat) powi (la - 1) \<le> of_int a"
  proof -
    have "(2::rat) powi (la - 1) = of_int (2 ^ nat (la - 1))"
      using la by (simp add: power_int_def)
    also have "\<dots> \<le> of_int a" using a1 by (simp only: of_int_le_iff)
    finally show ?thesis .
  qed
  have ra2: "of_int a < (2::rat) powi la"
  proof -
    have "of_int a < (of_int (2 ^ nat la) :: rat)" using a2 by (simp only: of_int_less_iff)
    also have "\<dots> = 2 powi la" using la by (simp add: power_int_def)
    finally show ?thesis .
  qed
  have rb1: "(2::rat) powi (lb - 1) \<le> of_int b"
  proof -
    have "(2::rat) powi (lb - 1) = of_int (2 ^ nat (lb - 1))"
      using lb by (simp add: power_int_def)
    also have "\<dots> \<le> of_int b" using b1 by (simp only: of_int_le_iff)
    finally show ?thesis .
  qed
  have rb2: "of_int b < (2::rat) powi lb"
  proof -
    have "of_int b < (of_int (2 ^ nat lb) :: rat)" using b2 by (simp only: of_int_less_iff)
    also have "\<dots> = 2 powi lb" using lb by (simp add: power_int_def)
    finally show ?thesis .
  qed
  have rb: "0 < (of_int b :: rat)" using b by simp
  have up: "x < 2 powi (la - lb + 1)"
  proof -
    have "x * of_int b = of_int a" using x rb by simp
    also have "\<dots> < 2 powi la" by (rule ra2)
    also have "\<dots> = 2 powi (la - lb + 1) * 2 powi (lb - 1)"
      by (simp add: power_int_add[symmetric])
    also have "\<dots> \<le> 2 powi (la - lb + 1) * of_int b"
      using rb1 by (intro mult_left_mono) simp_all
    finally show ?thesis using rb by simp
  qed
  have low: "2 powi (la - lb - 1) < x"
  proof -
    have "2 powi (la - lb - 1) * of_int b < 2 powi (la - lb - 1) * (2::rat) powi lb"
      using rb2 by (intro mult_strict_left_mono) simp_all
    also have "\<dots> = 2 powi (la - 1)"
      by (simp add: power_int_add[symmetric])
    also have "\<dots> \<le> of_int a" by (rule ra1)
    also have "\<dots> = x * of_int b" using x rb by simp
    finally show ?thesis using rb by simp
  qed
  show ?thesis
    using up low by (auto simp: floor_log2_def q Let_def la_def lb_def not_le intro: less_imp_le)
qed

lemma two_powi_less_iff: "(2::rat) powi a < 2 powi b \<longleftrightarrow> a < b"
proof
  assume l: "(2::rat) powi a < 2 powi b"
  show "a < b"
  proof (rule ccontr)
    assume "\<not> a < b"
    then have "(2::rat) powi b \<le> 2 powi a" by (intro power_int_increasing) simp_all
    with l show False by simp
  qed
next
  assume "a < b"
  then show "(2::rat) powi a < 2 powi b" by (intro power_int_strict_increasing) simp_all
qed

lemma floor_log2_eqI:
  assumes "0 < x" "2 powi e \<le> x" "x < 2 powi (e + 1)"
  shows "floor_log2 x = e"
proof -
  from floor_log2_bounds[OF assms(1)]
  have 1: "2 powi floor_log2 x \<le> x" and 2: "x < 2 powi (floor_log2 x + 1)" by simp_all
  from 1 assms(3) have "(2::rat) powi floor_log2 x < 2 powi (e + 1)" by simp
  then have "floor_log2 x < e + 1" by (simp only: two_powi_less_iff)
  moreover from assms(2) 2 have "(2::rat) powi e < 2 powi (floor_log2 x + 1)" by simp
  then have "e < floor_log2 x + 1" by (simp only: two_powi_less_iff)
  ultimately show ?thesis by simp
qed

lemma round_half_even_eqI:
  "of_int n - 1 / 2 < q \<Longrightarrow> q < of_int n + 1 / 2 \<Longrightarrow> round_half_even q = n"
  unfolding round_half_even_def Let_def
  by (auto simp: not_less) linarith+

lemma round_double_normal:
  assumes "2 powi e \<le> x" "x < 2 powi (e + 1)" "- 1022 \<le> e" "e \<le> 1022"
  shows "round_double x = Num (of_int (round_half_even (x / 2 powi (e - 52))) * 2 powi (e - 52))"
proof -
  have x: "0 < x" using assms(1) by (rule less_le_trans[rotated]) simp
  have f: "floor_log2 x = e" using x assms(1,2) by (rule floor_log2_eqI)
  have p: "(0::rat) < 2 powi (e - 52)" by simp
  have "x / 2 powi (e - 52) \<le> 2 powi (e + 1) / 2 powi (e - 52)"
    using assms(2) by (intro divide_right_mono) simp_all
  also have "\<dots> = of_int (2 ^ 53)"
    by (simp add: power_int_diff[symmetric])
  finally have "round_half_even (x / 2 powi (e - 52)) \<le> 2 ^ 53"
    by (rule round_half_even_le)
  then have "(of_int (round_half_even (x / 2 powi (e - 52))) :: rat) \<le> of_int (2 ^ 53)"
    by (simp only: of_int_le_iff)
  then have "of_int (round_half_even (x / 2 powi (e - 52))) * 2 powi (e - 52) \<le> of_int (2 ^ 53) * (2::rat) powi (e - 52)"
    by (intro mult_right_mono) simp_all
  also have "\<dots> = 2 powi (e + 1)"
    using power_int_add[of "2::rat" 53 "e - 52"] by (simp add: add.commute)
  also have "\<dots> < 2 powi 1024"
    using assms(4) by (simp only: two_powi_less_iff)
  finally have "\<not> (2::rat) powi 1024 \<le> of_int (round_half_even (x / 2 powi (e - 52))) * 2 powi (e - 52)"
    by simp
  moreover have "\<bar>x\<bar> = x" "sgn x = 1" "x \<noteq> 0" using x by simp_all
  moreover have "max (floor_log2 x - 52) (- 1074) = e - 52"
    using f assms(3) by (simp add: max_def)
  ultimately show ?thesis
    unfolding round_double_def Let_def by (simp only: if_False mult_1)
qed

lemma round_double_eqI:
  assumes "2 powi e \<le> x" "x < 2 powi (e + 1)" "- 1022 \<le> e" "e \<le> 1022"
    and "(of_int n - 1 / 2) * 2 powi (e - 52) < x" "x < (of_int n + 1 / 2) * 2 powi (e - 52)"
  shows "round_double x = Num (of_int n * 2 powi (e - 52))"
proof -
  have p: "(0::rat) < 2 powi (e - 52)" by simp
  from assms(5,6) p have "round_half_even (x / 2 powi (e - 52)) = n"
    by (intro round_half_even_eqI) (simp_all add: pos_less_divide_eq pos_divide_less_eq)
  with round_double_normal[OF assms(1-4)] show ?thesis by simp
qed

lemma double_1: "round_double 1 = Num 1"
  using round_double_eqI[of "0" "1" 4503599627370496]
  by (simp add: power_int_minus)

lemma double_100: "round_double 100 = Num 100"
  using round_double_eqI[of "6" "100" 7036874417766400]
  by (simp add: power_int_minus)

lemma double_200: "round_double 200 = Num 200"
  using round_double_eqI[of "7" "200" 7036874417766400]
  by (simp add: power_int_minus)

lemma double_3_10: "round_double (3 / 10) = Num (5404319552844595 / 18014398509481984)"
  using round_double_eqI[of "-2" "3/10" 5404319552844595]
  by (simp add: power_int_minus)

lemma double_2_3: "round_double (2 / 3) = Num (6004799503160661 / 9007199254740992)"
  using round_double_eqI[of "-1" "2/3" 6004799503160661]
  by (simp add: power_int_minus)

lemma double_2_3_100:
  "round_double (6004799503160661 / 9007199254740992 * 100) =
     Num (2345624805922133 / 35184372088832)"
  using round_double_eqI[of "6" "6004799503160661 / 9007199254740992 * 100" 4691249611844266]
  by (simp add: power_int_minus)

lemma double_200_3: "round_double (200 / 3) = Num (4691249611844267 / 70368744177664)"
  using round_double_eqI[of "6" "200/3" 4691249611844267]
  by (simp add: power_int_minus)

lemma double_4_5: "round_double (4 / 5) = Num (3602879701896397 / 4503599627370496)"
  using round_double_eqI[of "-1" "4/5" 7205759403792794]
  by (simp add: power_int_minus)

lemma double_4_5_100:
  "round_double (3602879701896397 / 4503599627370496 * 100) = Num 80"
  using round_double_eqI[of "6" "3602879701896397 / 4503599627370496 * 100" 5629499534213120]
  by (simp add: power_int_minus)

lemmas double_eval =
  double_1 double_100 double_200 double_3_10 double_2_3 double_2_3_100 double_200_3
  double_4_5 double_4_5_100

lemma round_double_nonneg:
  assumes "0 \<le> x"
  shows "round_double x = PosInfinity \<or> (\<exists>r. round_double x = Num r \<and> 0 \<le> r)"
proof (cases "x = 0")
  case True
  then show ?thesis by (simp add: round_double_def)
next
  case False
  with assms have x: "0 < x" by simp
  define e where "e = max (floor_log2 \<bar>x\<bar> - 52) (- 1074)"
  define r where "r = of_int (round_half_even (\<bar>x\<bar> / 2 powi e)) * (2::rat) powi e"
  have "0 \<le> \<bar>x\<bar> / 2 powi e" by simp
  then have "0 \<le> round_half_even (\<bar>x\<bar> / 2 powi e)" by (rule round_half_even_nonneg)
  then have r: "0 \<le> r" by (simp add: r_def)
  have "sgn x = 1" using x by simp
  then have "round_double x = (if 2 powi 1024 \<le> r then PosInfinity else Num r)"
    unfolding round_double_def Let_def r_def e_def using x False
    by (simp only: if_False if_True mult_1)
  with r show ?thesis by (cases "2 powi 1024 \<le> r") simp_all
qed

lemma round_double_relative:
  assumes "2 powi (- 1022) \<le> x" "x < 2 powi 1023"
  shows "\<exists>r. round_double x = Num r \<and> \<bar>r - x\<bar> \<le> x / 2 ^ 53"
proof -
  have x: "0 < x" using assms(1) by (rule less_le_trans[rotated]) simp
  define e where "e = floor_log2 x"
  from floor_log2_bounds[OF x] have b: "2 powi e \<le> x" "x < 2 powi (e + 1)"
    by (simp_all add: e_def)
  from assms(1) b(2) have "(2::rat) powi (- 1022) < 2 powi (e + 1)" by simp
  then have "- 1022 < e + 1" by (simp only: two_powi_less_iff)
  then have e1: "- 1022 \<le> e" by simp
  from assms(2) b(1) have "(2::rat) powi e < 2 powi 1023" by simp
  then have "e < 1023" by (simp only: two_powi_less_iff)
  then have e2: "e \<le> 1022" by simp
  define u :: rat where "u = 2 powi (e - 52)"
  define n where "n = round_half_even (x / u)"
  have u: "0 < u" by (simp add: u_def)
  have r: "round_double x = Num (of_int n * u)"
    using round_double_normal[OF b e1 e2] by (simp add: n_def u_def)
  have "of_int n * u - x = (of_int n - x / u) * u"
    using u by (simp add: left_diff_distrib)
  then have "\<bar>of_int n * u - x\<bar> = \<bar>of_int n - x / u\<bar> * \<bar>u\<bar>"
    by (simp only: abs_mult)
  also have "\<dots> = \<bar>of_int n - x / u\<bar> * u"
    using u by simp
  also have "\<dots> \<le> 1 / 2 * u"
    using round_half_even_error[of "x / u"] u by (intro mult_right_mono) (simp_all add: n_def)
  also have "\<dots> = 2 powi e / 2 ^ 53"
    using power_int_add[of "2::rat" "e - 52" 52] by (simp add: u_def)
  also have "\<dots> \<le> x / 2 ^ 53"
    using b(1) by (intro divide_right_mono) simp_all
  finally show ?thesis using r by blast
qed


lemma density_finite: "\<exists>r. density occ wordCount = Num r \<and> 0 \<le> r \<and> r \<le> 100"
proof (cases "wordCount > 0")
  case False
  then show ?thesis by (simp add: density_def)
next
  case True
  then have d: "js_div (Num (of_nat occ)) (Num (of_nat wordCount)) =
      round_double (of_nat occ / of_nat wordCount)" by simp
  have "(0::rat) \<le> of_nat occ / of_nat wordCount" by simp
  from round_double_nonneg[OF this] show ?thesis
  proof
    assume "round_double (of_nat occ / of_nat wordCount) = PosInfinity"
    with True d show ?thesis by (simp add: density_def)
  next
    assume "\<exists>r. round_double (of_nat occ / of_nat wordCount) = Num r \<and> 0 \<le> r"
    then obtain r1 where r1: "round_double (of_nat occ / of_nat wordCount) = Num r1" "0 \<le> r1"
      by blast
    then have "0 \<le> r1 * 100" by simp
    from round_double_nonneg[OF this] show ?thesis
    proof
      assume "round_double (r1 * 100) = PosInfinity"
      with True d r1 show ?thesis by (simp add: density_def)
    next
      assume "\<exists>r. round_double (r1 * 100) = Num r \<and> 0 \<le> r"
      then obtain r2 where "round_double (r1 * 100) = Num r2" "0 \<le> r2" by blast
      with True d r1 show ?thesis by (simp add: density_def)
    qed
  qed
qed

lemma density_error:
  assumes wc: "0 < wordCount" and b: "occ < 2 ^ 64" "wordCount < 2 ^ 64"
  shows "\<exists>r. density occ wordCount = Num r \<and>
           \<bar>r - min 100 (100 * of_nat occ / of_nat wordCount)\<bar>
             \<le> min 100 (100 * of_nat occ / of_nat wordCount) / 2 ^ 51"
proof (cases "occ = 0")
  case True
  with wc show ?thesis by (simp add: density_def round_double_def)
next
  case False
  define q :: rat where "q = of_nat occ / of_nat wordCount"
  have w1: "(1::rat) \<le> of_nat wordCount" using wc by simp
  have w2: "(of_nat wordCount :: rat) < 2 ^ 64"
    using b(2) by (metis of_nat_less_iff of_nat_numeral of_nat_power)
  have o1: "(1::rat) \<le> of_nat occ" using False by simp
  have o2: "(of_nat occ :: rat) < 2 ^ 64"
    using b(1) by (metis of_nat_less_iff of_nat_numeral of_nat_power)
  have q1: "1 / 2 ^ 64 \<le> q"
  proof -
    have "1 / 2 ^ 64 \<le> 1 / (of_nat wordCount :: rat)"
      using w1 w2 by (intro divide_left_mono) simp_all
    also have "\<dots> \<le> q" unfolding q_def using o1 w1 by (intro divide_right_mono) simp_all
    finally show ?thesis .
  qed
  have q2: "q < 2 ^ 64"
  proof -
    have "q \<le> of_nat occ / 1" unfolding q_def using w1 by (intro divide_left_mono) simp_all
    with o2 show ?thesis by simp
  qed
  have q0: "0 < q" using q1 by (rule less_le_trans[rotated]) simp
  have "2 powi (- 1022) \<le> (1::rat) / 2 ^ 64"
    using power_int_increasing[of "- 1022" "- 64" "2::rat"] by (simp add: power_int_minus field_simps)
  with q1 have l1: "2 powi (- 1022) \<le> q" by simp
  have "(2::rat) ^ 64 \<le> 2 powi 1023"
    using power_int_increasing[of "64" "1023" "2::rat"] by simp
  with q2 have u1: "q < 2 powi 1023" by simp
  from round_double_relative[OF l1 u1] obtain r1
    where r1: "round_double q = Num r1" and e1: "\<bar>r1 - q\<bar> \<le> q / 2 ^ 53" by blast
  have "q / 2 ^ 53 \<le> q / 2"
    using q0 by (intro divide_left_mono) simp_all
  with e1 have "\<bar>r1 - q\<bar> \<le> q / 2" by simp
  then have r1l: "q / 2 \<le> r1" and r1u: "r1 \<le> 2 * q"
    by linarith+
  have "2 powi (- 1022) \<le> (1::rat) / 2 ^ 65"
    using power_int_increasing[of "- 1022" "- 65" "2::rat"] by (simp add: power_int_minus field_simps)
  also have "\<dots> \<le> r1 * 100" using r1l q1 by (simp add: field_simps)
  finally have l2: "2 powi (- 1022) \<le> r1 * 100" .
  have "r1 * 100 < 2 ^ 72" using r1u q2 by simp
  also have "(2::rat) ^ 72 \<le> 2 powi 1023"
    using power_int_increasing[of "72" "1023" "2::rat"] by simp
  finally have u2: "r1 * 100 < 2 powi 1023" .
  from round_double_relative[OF l2 u2] obtain r2
    where r2: "round_double (r1 * 100) = Num r2" and e2: "\<bar>r2 - r1 * 100\<bar> \<le> r1 * 100 / 2 ^ 53"
    by blast
  have d: "density occ wordCount = Num (min 100 r2)"
    using wc r1 r2 by (simp add: density_def q_def)
  have e: "\<bar>r2 - 100 * q\<bar> \<le> 100 * q / 2 ^ 51"
  proof -
    have "\<bar>r2 - 100 * q\<bar> \<le> \<bar>r2 - r1 * 100\<bar> + 100 * \<bar>r1 - q\<bar>" by (simp add: abs_if split: if_splits)
    also have "\<dots> \<le> r1 * 100 / 2 ^ 53 + 100 * (q / 2 ^ 53)"
      using e1 e2 by (intro add_mono mult_left_mono) simp_all
    also have "\<dots> \<le> (2 * q) * 100 / 2 ^ 53 + 100 * (q / 2 ^ 53)"
      using r1u by simp
    also have "\<dots> \<le> 100 * q / 2 ^ 51" using q0 by (simp add: field_simps)
    finally show ?thesis .
  qed
  have "\<bar>min 100 r2 - min 100 (100 * q)\<bar> \<le> min 100 (100 * q) / 2 ^ 51"
  proof (cases "100 * q \<le> 100")
    case True
    then have m: "min 100 (100 * q) = 100 * q" by simp
    define c where "c = 100 * q / 2 ^ 51"
    from e have "\<bar>r2 - 100 * q\<bar> \<le> c" by (simp only: c_def)
    with True have "\<bar>min 100 r2 - 100 * q\<bar> \<le> c" by linarith
    then show ?thesis by (simp only: m c_def)
  next
    case False
    then have m: "min 100 (100 * q) = 100" by simp
    define k :: rat where "k = 1 / 2 ^ 51"
    have k: "0 < k" "k < 1" by (simp_all add: k_def)
    from e have "\<bar>r2 - 100 * q\<bar> \<le> 100 * q * k" by (simp add: k_def)
    then have "100 * q * (1 - k) \<le> r2" by (simp add: abs_le_iff algebra_simps)
    moreover have "100 * 1 * (1 - k) \<le> 100 * q * (1 - k)"
      using False k by (intro mult_right_mono mult_left_mono) simp_all
    ultimately have "100 - 100 * k \<le> r2" by (simp add: algebra_simps)
    with k have "\<bar>min 100 r2 - 100\<bar> \<le> 100 * k" by linarith
    then show ?thesis by (simp add: m k_def)
  qed
  with d show ?thesis by (simp add: q_def)
qed

section \<open>Properties of the keyword heuristic engine\<close>

lemma token_starts_dropWhile: "token_starts True (dropWhile is_ws cs) = token_starts True cs"
  by (induction cs) auto

lemma split_ws_from_words:
  "length (filter (\<lambda>w. w \<noteq> []) (split_ws_from cur s)) =
     (if cur = [] then token_starts True s else Suc (token_starts False s))"
  by (induction cur s rule: split_ws_from.induct) (auto simp: token_starts_dropWhile)

lemma wordCount_token_count:
  "length (filter (\<lambda>w. w \<noteq> []) (split_ws text)) = token_count text"
  by (simp add: split_ws_def token_count_def split_ws_from_words)

lemma startsWith_iff: "startsWith s p \<longleftrightarrow> (\<exists>t. s = p @ t)"
  by (induction s p rule: startsWith.induct) auto

lemma str_includes_iff: "str_includes s p \<longleftrightarrow> (\<exists>a b. s = a @ p @ b)"
proof (induction s)
  case Nil
  then show ?case by auto
next
  case (Cons c cs)
  have "(\<exists>a b. c # cs = a @ p @ b) \<longleftrightarrow> (\<exists>t. c # cs = p @ t) \<or> (\<exists>a b. cs = a @ p @ b)"
    by (auto simp: Cons_eq_append_conv)
  with Cons show ?case by (simp add: startsWith_iff)
qed

lemma str_includes_toLowerCase: "str_includes (toLowerCase text) kw \<longleftrightarrow> occurs_ci kw text"
proof
  assume "str_includes (toLowerCase text) kw"
  then obtain a b where "map toLowerCase_char text = a @ kw @ b"
    by (auto simp: str_includes_iff toLowerCase_def)
  then have "\<exists>us vs. text = us @ vs \<and> a = map toLowerCase_char us \<and> kw @ b = map toLowerCase_char vs"
    by (simp only: map_eq_append_conv)
  then obtain us vs where 1: "text = us @ vs" and 2: "kw @ b = map toLowerCase_char vs"
    by blast
  from 2 have "\<exists>w b'. vs = w @ b' \<and> kw = map toLowerCase_char w \<and> b = map toLowerCase_char b'"
    by (simp only: append_eq_map_conv)
  then obtain w b' where "vs = w @ b'" and "map toLowerCase_char w = kw"
    by metis
  with 1 show "occurs_ci kw text"
    by (auto simp: occurs_ci_def toLowerCase_def)
next
  assume "occurs_ci kw text"
  then obtain a w b where "text = a @ w @ b" and "toLowerCase w = kw"
    by (auto simp: occurs_ci_def)
  then have "toLowerCase text = toLowerCase a @ kw @ toLowerCase b"
    by (auto simp: toLowerCase_def)
  then show "str_includes (toLowerCase text) kw"
    unfolding str_includes_iff by blast
qed

lemma distinct_ACADEMIC_KEYWORDS: "distinct ACADEMIC_KEYWORDS"
  by (simp add: ACADEMIC_KEYWORDS_def)

lemma Nil_notin_ACADEMIC_KEYWORDS: "[] \<notin> set ACADEMIC_KEYWORDS"
  by (simp add: ACADEMIC_KEYWORDS_def)

lemma occurs_ci_Nil: "occurs_ci kw [] \<longleftrightarrow> kw = []"
  by (auto simp: occurs_ci_def toLowerCase_def)

lemma count_countKeywordsInText:
  "count (countKeywordsInText text) = card (distinct_keywords text)"
proof (cases "text = []")
  case True
  then have "distinct_keywords text = {}"
    using Nil_notin_ACADEMIC_KEYWORDS by (auto simp: distinct_keywords_def occurs_ci_Nil)
  with True show ?thesis by (simp add: countKeywordsInText_def)
next
  case False
  have "{x. str_includes (toLowerCase text) x} \<inter> set ACADEMIC_KEYWORDS = distinct_keywords text"
    by (auto simp: distinct_keywords_def str_includes_toLowerCase)
  with False show ?thesis
    by (simp add: countKeywordsInText_def Let_def
        distinct_length_filter[OF distinct_ACADEMIC_KEYWORDS])
qed


lemma of_char_canonicalize: "of_char (canonicalize c) = canon_code (of_char c)"
  by (auto simp: canonicalize_def canon_code_def Let_def)

lemma canonicalize_eq_iff:
  "(canonicalize c = canonicalize p) = (canon_code (of_char c) = canon_code (of_char p))"
  using of_char_canonicalize[of c] of_char_canonicalize[of p]
  by (metis of_char_eq_iff)

lemmas heuristic_eval =
  validateDocumentContent_def countKeywordsInText_def keywordOccurrences_def
  hasMinimumAcademicKeywords_def slice0_def
  ACADEMIC_KEYWORDS_def split_ws_def is_ws_def toLowerCase_def toLowerCase_char_def
  canonicalize_eq_iff canon_code_def char_of_eq_iff

subsection \<open>The pattern matches\<close>

lemma of_char_toLowerCase_char:
  "(of_char (toLowerCase_char c) :: nat) =
     (let n = of_char c in if (65 \<le> n \<and> n \<le> 90) \<or> (192 \<le> n \<and> n \<le> 222 \<and> n \<noteq> 215) then n + 32 else n)"
  by (auto simp: toLowerCase_char_def Let_def)

lemma canon_plain:
  assumes "97 \<le> (of_char p :: nat)" "(of_char p :: nat) \<le> 122"
  shows "(canonicalize c = canonicalize p) = (toLowerCase_char c = p)"
proof -
  define n m where "n = (of_char c :: nat)" and "m = (of_char p :: nat)"
  have "(toLowerCase_char c = p) = ((of_char (toLowerCase_char c) :: nat) = of_char p)"
    by (simp only: of_char_eq_iff)
  also have "\<dots> =
     ((if (65 \<le> n \<and> n \<le> 90) \<or> (192 \<le> n \<and> n \<le> 222 \<and> n \<noteq> 215) then n + 32 else n) = m)"
    by (simp only: of_char_toLowerCase_char Let_def n_def m_def)
  finally have R: "(toLowerCase_char c = p) =
     ((if (65 \<le> n \<and> n \<le> 90) \<or> (192 \<le> n \<and> n \<le> 222 \<and> n \<noteq> 215) then n + 32 else n) = m)" .
  have L: "(canonicalize c = canonicalize p) = (canon_code n = canon_code m)"
    by (simp add: canonicalize_eq_iff n_def m_def)
  have "n < 256" by (simp add: n_def)
  moreover from assms have "97 \<le> m" "m \<le> 122" by (simp_all add: m_def)
  ultimately show ?thesis
    unfolding L R canon_code_def by (auto split: if_splits)
qed

lemma startsWith_ci_plain:
  "plain kw \<Longrightarrow> startsWith_ci s kw \<longleftrightarrow> (\<exists>w t. s = w @ t \<and> toLowerCase w = kw)"
proof (induction s kw rule: startsWith_ci.induct)
  case (1 s)
  then show ?case by (auto simp: toLowerCase_def)
next
  case (2 p ps)
  then show ?case by (auto simp: toLowerCase_def)
next
  case (3 c cs p ps)
  from "3.prems" have p: "97 \<le> (of_char p :: nat)" "(of_char p :: nat) \<le> 122" and ps: "plain ps"
    by (auto simp: plain_def)
  have "(\<exists>w t. c # cs = w @ t \<and> toLowerCase w = p # ps) \<longleftrightarrow>
        (toLowerCase_char c = p \<and> (\<exists>w t. cs = w @ t \<and> toLowerCase w = ps))"
  proof
    assume "\<exists>w t. c # cs = w @ t \<and> toLowerCase w = p # ps"
    then obtain w t where wt: "c # cs = w @ t" and l: "toLowerCase w = p # ps" by blast
    from l obtain x w' where w: "w = x # w'" by (cases w) (auto simp: toLowerCase_def)
    with wt l show "toLowerCase_char c = p \<and> (\<exists>w t. cs = w @ t \<and> toLowerCase w = ps)"
      by (auto simp: toLowerCase_def)
  next
    assume "toLowerCase_char c = p \<and> (\<exists>w t. cs = w @ t \<and> toLowerCase w = ps)"
    then obtain w t where "toLowerCase_char c = p" "cs = w @ t" "toLowerCase w = ps" by blast
    then have "c # cs = (c # w) @ t \<and> toLowerCase (c # w) = p # ps"
      by (simp add: toLowerCase_def)
    then show "\<exists>w t. c # cs = w @ t \<and> toLowerCase w = p # ps" by blast
  qed
  with "3.IH"[OF ps] canon_plain[OF p] show ?case by simp
qed

lemma toLowerCase_length: "length (toLowerCase w) = length w"
  by (simp add: toLowerCase_def)

lemma occurs_ci_empty: "occurs_ci [] text"
  unfolding occurs_ci_def
  by (intro exI[of _ "[]"] exI[of _ "text"]) (simp add: toLowerCase_def)

lemma plain_ACADEMIC_KEYWORDS: "kw \<in> set ACADEMIC_KEYWORDS \<Longrightarrow> plain kw"
  by (auto simp: ACADEMIC_KEYWORDS_def plain_def)

lemma occurs_ci_Cons:
  "occurs_ci kw (c # cs) \<longleftrightarrow> (\<exists>w t. c # cs = w @ t \<and> toLowerCase w = kw) \<or> occurs_ci kw cs"
proof
  assume "occurs_ci kw (c # cs)"
  then obtain a w b where t: "c # cs = a @ w @ b" and w: "toLowerCase w = kw"
    by (auto simp: occurs_ci_def)
  show "(\<exists>w t. c # cs = w @ t \<and> toLowerCase w = kw) \<or> occurs_ci kw cs"
  proof (cases a)
    case Nil
    with t w show ?thesis by auto
  next
    case (Cons x a')
    with t have "cs = a' @ w @ b" by simp
    with w show ?thesis by (auto simp: occurs_ci_def)
  qed
next
  assume "(\<exists>w t. c # cs = w @ t \<and> toLowerCase w = kw) \<or> occurs_ci kw cs"
  then show "occurs_ci kw (c # cs)"
  proof
    assume "\<exists>w t. c # cs = w @ t \<and> toLowerCase w = kw"
    then obtain w t where "c # cs = [] @ w @ t" "toLowerCase w = kw" by auto
    then show ?thesis unfolding occurs_ci_def by blast
  next
    assume "occurs_ci kw cs"
    then obtain a w b where "cs = a @ w @ b" "toLowerCase w = kw" by (auto simp: occurs_ci_def)
    then have "c # cs = (c # a) @ w @ b" "toLowerCase w = kw" by simp_all
    then show ?thesis unfolding occurs_ci_def by blast
  qed
qed

lemma match_count_no_match:
  assumes "plain kw" "kw \<noteq> []"
  shows "\<not> occurs_ci kw text \<Longrightarrow> match_count kw text = 0"
proof (induction "text")
  case Nil
  with assms show ?case by simp
next
  case (Cons c cs)
  then show ?case
    using assms by (simp add: occurs_ci_Cons startsWith_ci_plain)
qed

lemma occurs_ci_length: "occurs_ci kw text \<Longrightarrow> length kw \<le> length text"
  by (auto simp: occurs_ci_def toLowerCase_def)

lemma match_count_match:
  assumes "plain kw" "kw \<noteq> []" and w: "toLowerCase w = kw"
  shows "\<not> occurs_ci kw (gap @ butlast w) \<Longrightarrow>
           match_count kw (gap @ w @ rest) = Suc (match_count kw rest)"
proof (induction gap)
  case Nil
  from w assms(2) obtain x w' where x: "w = x # w'" by (cases w) (auto simp: toLowerCase_def)
  have "startsWith_ci (w @ rest) kw"
    using w by (auto simp: startsWith_ci_plain[OF assms(1)])
  moreover have "length kw = length w" using w by (auto simp: toLowerCase_def)
  ultimately show ?case by (simp add: x)
next
  case (Cons c gap)
  have n: "\<not> startsWith_ci (c # gap @ w @ rest) kw"
  proof
    assume "startsWith_ci (c # gap @ w @ rest) kw"
    then obtain v t where vt: "c # gap @ w @ rest = v @ t" and v: "toLowerCase v = kw"
      by (auto simp: startsWith_ci_plain[OF assms(1)])
    have lv: "length v = length w" using v w by (metis toLowerCase_length)
    from w assms(2) have "w \<noteq> []" by (auto simp: toLowerCase_def)
    then have lb: "length (butlast w) = length w - 1" "0 < length w" by simp_all
    have e: "c # gap @ w @ rest = (c # gap @ butlast w) @ (last w # rest)"
      using \<open>w \<noteq> []\<close> by simp
    have le: "length v \<le> length (c # gap @ butlast w)" using lv lb by simp
    have "v = take (length v) (c # gap @ w @ rest)" using vt by simp
    also have "\<dots> = take (length v) ((c # gap @ butlast w) @ (last w # rest))"
      by (simp only: e)
    also have "\<dots> = take (length v) (c # gap @ butlast w)"
      by (simp only: take_append) (use le in simp)
    finally have "c # gap @ butlast w = v @ drop (length v) (c # gap @ butlast w)"
      by (metis append_take_drop_id)
    then have "occurs_ci kw ((c # gap) @ butlast w)"
      using v unfolding occurs_ci_def
      by (intro exI[of _ "[]"] exI[of _ v] exI[of _ "drop (length v) (c # gap @ butlast w)"]) simp
    with Cons.prems show False by simp
  qed
  from Cons.prems have "\<not> occurs_ci kw (gap @ butlast w)"
    by (simp add: occurs_ci_Cons)
  with Cons.IH n show ?case by simp
qed

lemma pattern_matches_match_count:
  "pattern_matches kw text k \<Longrightarrow> plain kw \<Longrightarrow> kw \<noteq> [] \<Longrightarrow> match_count kw text = k"
  by (induction rule: pattern_matches.induct)
     (simp_all add: match_count_no_match match_count_match)

lemma pattern_matches_Cons:
  assumes "pattern_matches kw cs k" and n: "\<not> (\<exists>w t. c # cs = w @ t \<and> toLowerCase w = kw)"
  shows "pattern_matches kw (c # cs) k"
  using assms(1)
proof (cases rule: pattern_matches.cases)
  case no_match
  with n have "\<not> occurs_ci kw (c # cs)" by (simp add: occurs_ci_Cons)
  with no_match show ?thesis by (simp add: pattern_matches.no_match)
next
  case (match w gap rest k')
  have "\<not> occurs_ci kw ((c # gap) @ butlast w)"
  proof
    assume "occurs_ci kw ((c # gap) @ butlast w)"
    with match(4) have "\<exists>v t. c # gap @ butlast w = v @ t \<and> toLowerCase v = kw"
      by (simp add: occurs_ci_Cons)
    then obtain v t where "c # gap @ butlast w = v @ t" "toLowerCase v = kw" by blast
    moreover have "w \<noteq> [] \<Longrightarrow> w = butlast w @ [last w]" by simp
    moreover have "w = [] \<Longrightarrow> False"
      using match(4) match(3) occurs_ci_empty by (auto simp: toLowerCase_def)
    ultimately have "c # cs = v @ (t @ [last w] @ rest) \<and> toLowerCase v = kw"
      using match(1) by (metis append.assoc append_Cons)
    with n show False by blast
  qed
  from pattern_matches.match[OF match(3) this match(5)] match(1,2) show ?thesis by simp
qed

lemma pattern_matches_exists:
  "plain kw \<Longrightarrow> kw \<noteq> [] \<Longrightarrow> pattern_matches kw text (match_count kw text)"
proof (induction kw "text" rule: match_count.induct)
  case (1 kw)
  then show ?case by (simp add: pattern_matches.no_match occurs_ci_Nil)
next
  case (2 kw c cs)
  show ?case
  proof (cases "startsWith_ci (c # cs) kw")
    case True
    then obtain w t where wt: "c # cs = w @ t" and w: "toLowerCase w = kw"
      using "2.prems" by (auto simp: startsWith_ci_plain)
    have lw: "length w = length kw" using w by (metis toLowerCase_length)
    with "2.prems" have "0 < length w" by (cases kw) auto
    have "t = drop (length w) (c # cs)" using wt by simp
    also have "\<dots> = drop (length kw - 1) cs"
      using lw \<open>0 < length w\<close> by (simp add: drop_Cons')
    finally have t: "t = drop (length kw - 1) cs" .
    have "\<not> occurs_ci kw (butlast w)"
    proof
      assume "occurs_ci kw (butlast w)"
      then have "length kw \<le> length w - 1" using occurs_ci_length[of kw "butlast w"] by simp
      with lw "2.prems"(2) show False by (cases kw) auto
    qed
    then have "\<not> occurs_ci kw ([] @ butlast w)" by simp
    from pattern_matches.match[OF w this "2.IH"(1)[OF True "2.prems"]]
    have "pattern_matches kw (w @ drop (length kw - 1) cs)
            (Suc (match_count kw (drop (length kw - 1) cs)))"
      by (simp only: append_Nil)
    then have "pattern_matches kw (c # cs) (Suc (match_count kw (drop (length kw - 1) cs)))"
      by (simp only: wt t)
    moreover have "match_count kw (c # cs) = Suc (match_count kw (drop (length kw - 1) cs))"
      using True by simp
    ultimately show ?thesis by (simp only:)
  next
    case False
    then have "\<not> (\<exists>w t. c # cs = w @ t \<and> toLowerCase w = kw)"
      using "2.prems" by (simp add: startsWith_ci_plain)
    from pattern_matches_Cons[OF "2.IH"(2)[OF False "2.prems"] this] False
    show ?thesis by simp
  qed
qed

lemma pattern_matches_iff:
  assumes "kw \<in> set ACADEMIC_KEYWORDS"
  shows "pattern_matches kw text k \<longleftrightarrow> k = match_count kw text"
proof -
  from assms have p: "plain kw" "kw \<noteq> []"
    using plain_ACADEMIC_KEYWORDS Nil_notin_ACADEMIC_KEYWORDS by auto
  show ?thesis
    using pattern_matches_match_count[OF _ p] pattern_matches_exists[OF p] by auto
qed

lemma keywordOccurrences_total: "keywordOccurrences text = total_occurrences text"
proof -
  have "(THE k. pattern_matches kw text k) = match_count kw text" if "kw \<in> set ACADEMIC_KEYWORDS" for kw
    using pattern_matches_iff[OF that] by simp
  then show ?thesis
    unfolding keywordOccurrences_def total_occurrences_def
    by (intro arg_cong[of _ _ sum_list] map_cong) simp_all
qed

lemma match_count_le_length: "kw \<noteq> [] \<Longrightarrow> match_count kw text \<le> length text"
proof (induction kw "text" rule: match_count.induct)
  case (1 kw)
  then show ?case by simp
next
  case (2 kw c cs)
  show ?case
  proof (cases "startsWith_ci (c # cs) kw")
    case True
    from "2.IH"(1)[OF True "2.prems"]
    have "match_count kw (drop (length kw - 1) cs) \<le> length cs" by simp
    with True show ?thesis by simp
  next
    case False
    with "2.IH"(2)[OF False "2.prems"] show ?thesis by simp
  qed
qed

lemma keywordOccurrences_le_length: "keywordOccurrences text \<le> 15 * length text"
proof -
  have "sum_list (map (\<lambda>kw. match_count kw text) ACADEMIC_KEYWORDS)
          \<le> sum_list (map (\<lambda>kw. length text) ACADEMIC_KEYWORDS)"
    using Nil_notin_ACADEMIC_KEYWORDS
    by (intro sum_list_mono match_count_le_length) auto
  also have "\<dots> = 15 * length text"
    by (simp add: ACADEMIC_KEYWORDS_def)
  finally show ?thesis by (simp add: keywordOccurrences_def)
qed

lemma token_starts_le_length: "token_starts prev_ws text \<le> length text"
proof (induction "text" arbitrary: prev_ws)
  case Nil
  then show ?case by simp
next
  case (Cons c cs)
  have "token_starts (is_ws c) cs \<le> length cs" by (rule Cons.IH)
  then show ?case by (cases "is_ws c") simp_all
qed

lemma token_count_le_length: "token_count text \<le> length text"
  by (simp add: token_count_def token_starts_le_length)

subsection \<open>The density check\<close>

lemma score_density:
  "score (validateDocumentContent text) = density (keywordOccurrences text) (token_count text)"
proof (cases "text = []")
  case True
  then show ?thesis by (simp add: validateDocumentContent_def density_def token_count_def)
next
  case False
  then show ?thesis
    by (simp add: validateDocumentContent_def density_def Let_def wordCount_token_count
        del: length_greater_0_conv)
qed

lemma validate_seed:
  "validateDocumentContent ''syllabus unit marks exam exam exam'' =
     \<lparr>score = Num 100, passed = True, keywordCount = 6, distinctKeywords = Some 4\<rparr>"
  using double_eval by (simp add: heuristic_eval)

lemma validate_short:
  "validateDocumentContent ''exam unit x'' =
     \<lparr>score = Num (2345624805922133 / 35184372088832), passed = True, keywordCount = 2,
      distinctKeywords = Some 2\<rparr>"
  using double_eval by (simp add: heuristic_eval)

lemma token_count_short: "token_count ''exam unit x'' = 3"
  by (simp add: token_count_def is_ws_def)

lemma total_occurrences_short: "total_occurrences ''exam unit x'' = 2"
  using validate_short keywordOccurrences_total[of "''exam unit x''"]
  by (simp add: validateDocumentContent_def Let_def)

lemma exact_density_short: "exact_density ''exam unit x'' = 200 / 3"
  by (simp add: exact_density_def token_count_short total_occurrences_short)

text \<open>
  Claim C2, as amended. For every text, the density check \<^verbatim>\<open>validateDocumentContent\<close>
  returns the score \<open>min(100, (totalOccurrences / wordCount) * 100)\<close> computed in doubles, the
  quotient and then the product rounded to the nearest double, where \<open>wordCount\<close> is the
  number of white-space delimited non-empty tokens and \<open>totalOccurrences\<close> the number of
  case-insensitive pattern matches of the keywords; the score is 0 when there is no word.
  It is always a finite number between 0 and 100, never \<^verbatim>\<open>NaN\<close>, and for a text of fewer
  than \<open>2 ^ 53\<close> characters it is within the relative error \<open>2 ^ - 51\<close> of the exact
  \<open>min(100, 100 * totalOccurrences / wordCount)\<close>. The check passes if and only if at least
  2 distinct keywords occur and the score is at least the double 0.3. The empty text
  scores 0 and fails; the text "syllabus unit marks exam exam exam" passes with at least
  4 distinct keywords.
\<close>

theorem validateDocumentContent_density:
  "score (validateDocumentContent text) =
     (if token_count text = 0 then Num 0
      else Math_min (Num 100)
             (js_mul (js_div (Num (of_nat (total_occurrences text)))
                             (Num (of_nat (token_count text))))
                     (Num 100)))
   \<and> (\<exists>r. score (validateDocumentContent text) = Num r \<and> 0 \<le> r \<and> r \<le> 100)
   \<and> (length text < 2 ^ 53 \<longrightarrow>
        (\<exists>r. score (validateDocumentContent text) = Num r \<and>
           \<bar>r - exact_density text\<bar> \<le> exact_density text / 2 ^ 51))
   \<and> passed (validateDocumentContent text) =
     (2 \<le> card (distinct_keywords text) \<and>
      js_ge (score (validateDocumentContent text)) (round_double (3 / 10)))
   \<and> keywordCount (validateDocumentContent text) = total_occurrences text
   \<and> score (validateDocumentContent []) = Num 0
   \<and> \<not> passed (validateDocumentContent [])
   \<and> passed (validateDocumentContent ''syllabus unit marks exam exam exam'')
   \<and> (\<exists>n. distinctKeywords (validateDocumentContent ''syllabus unit marks exam exam exam'') = Some n
          \<and> 4 \<le> n)"
proof -
  have empty: "validateDocumentContent [] =
      \<lparr>score = Num 0, passed = False, keywordCount = 0, distinctKeywords = None\<rparr>"
    by (simp add: validateDocumentContent_def)
  have occ0: "keywordOccurrences [] = 0"
    by (simp add: keywordOccurrences_def ACADEMIC_KEYWORDS_def)
  have sc: "score (validateDocumentContent text) =
     (if token_count text = 0 then Num 0
      else Math_min (Num 100)
             (js_mul (js_div (Num (of_nat (total_occurrences text)))
                             (Num (of_nat (token_count text))))
                     (Num 100)))"
    by (simp add: score_density density_def keywordOccurrences_total)
  have fin: "\<exists>r. score (validateDocumentContent text) = Num r \<and> 0 \<le> r \<and> r \<le> 100"
    by (simp only: score_density density_finite)
  have err: "\<exists>r. score (validateDocumentContent text) = Num r \<and>
           \<bar>r - exact_density text\<bar> \<le> exact_density text / 2 ^ 51"
    if short: "length text < 2 ^ 53"
  proof (cases "token_count text = 0")
    case True
    then show ?thesis by (simp add: score_density density_def exact_density_def)
  next
    case False
    have "keywordOccurrences text \<le> 15 * length text" by (rule keywordOccurrences_le_length)
    also have "\<dots> < 15 * 2 ^ 53" using short by simp
    also have "\<dots> \<le> (2::nat) ^ 64" by simp
    finally have o: "keywordOccurrences text < 2 ^ 64" .
    have "token_count text \<le> length text" by (rule token_count_le_length)
    also have "\<dots> < 2 ^ 53" by (rule short)
    also have "\<dots> \<le> (2::nat) ^ 64" by simp
    finally have w: "token_count text < 2 ^ 64" .
    from False have "0 < token_count text" by simp
    from density_error[OF this o w] False show ?thesis
      by (simp add: score_density exact_density_def keywordOccurrences_total)
  qed
  have ps: "passed (validateDocumentContent text) =
     (2 \<le> card (distinct_keywords text) \<and>
      js_ge (score (validateDocumentContent text)) (round_double (3 / 10)))"
  proof (cases "text = []")
    case True
    have "card (distinct_keywords []) = 0"
      by (simp add: count_countKeywordsInText[symmetric] countKeywordsInText_def)
    with True show ?thesis by (simp add: empty)
  next
    case False
    then show ?thesis
      by (simp add: validateDocumentContent_def Let_def count_countKeywordsInText)
  qed
  have kc: "keywordCount (validateDocumentContent text) = total_occurrences text"
    by (cases "text = []")
       (simp_all add: empty occ0 validateDocumentContent_def Let_def
          keywordOccurrences_total[symmetric])
  show ?thesis
    using sc fin err ps kc by (simp add: empty validate_seed)
qed

text \<open>
  The claim as it was stated, with the exact quotient, fails on the text "exam unit x": 2
  occurrences in 3 words. The exact density is 200/3, which no double equals; the score
  is the double 66.66666666666666, and it is not the double nearest to 200/3 either,
  66.66666666666667, which \<open>(100 * 2) / 3\<close> gives in doubles.
\<close>

theorem validateDocumentContent_counterexample:
  "exact_density ''exam unit x'' = 200 / 3
   \<and> score (validateDocumentContent ''exam unit x'') = Num (2345624805922133 / 35184372088832)
   \<and> score (validateDocumentContent ''exam unit x'') \<noteq> Num (exact_density ''exam unit x'')
   \<and> score (validateDocumentContent ''exam unit x'') \<noteq>
       Math_min (Num 100) (js_div (js_mul (Num 100) (Num 2)) (Num 3))"
proof -
  have "Math_min (Num 100) (js_div (js_mul (Num 100) (Num 2)) (Num 3)) =
      Num (4691249611844267 / 70368744177664)"
    using double_eval by simp
  then show ?thesis by (simp add: validate_short exact_density_short)
qed

text \<open>The witness: the text "exam unit x", of 11 characters, whose exact density is 200/3.\<close>

theorem validateDocumentContent_density_witness:
  "length ''exam unit x'' < 2 ^ 53
   \<and> score (validateDocumentContent ''exam unit x'') = Num (2345624805922133 / 35184372088832)
   \<and> \<bar>2345624805922133 / 35184372088832 - 200 / 3\<bar> \<le> (200 / 3) / (2 ^ 51 :: rat)
   \<and> passed (validateDocumentContent ''exam unit x'')"
proof -
  have l: "length ''exam unit x'' < 2 ^ 53" by simp
  from validateDocumentContent_density[of "''exam unit x''", THEN conjunct2, THEN conjunct2,
      THEN conjunct1, THEN mp, OF l]
  obtain r where r: "score (validateDocumentContent ''exam unit x'') = Num r"
    and e: "\<bar>r - exact_density ''exam unit x''\<bar> \<le> exact_density ''exam unit x'' / 2 ^ 51"
    by blast
  have s: "score (validateDocumentContent ''exam unit x'') =
      Num (2345624805922133 / 35184372088832)"
    by (simp add: validate_short)
  with r have "Num r = Num (2345624805922133 / 35184372088832)" by (simp only:)
  then have "r = 2345624805922133 / 35184372088832" by (simp only: js_number.inject)
  with e have b: "\<bar>2345624805922133 / 35184372088832 - 200 / 3\<bar> \<le> (200 / 3) / (2 ^ 51 :: rat)"
    by (simp only: exact_density_short)
  have p: "passed (validateDocumentContent ''exam unit x'')"
    by (simp add: validate_short)
  from l s b p show ?thesis by (intro conjI)
qed

lemma slice0_nat: "slice0 s (int n) = take n s"
  by (simp add: slice0_def)

lemma hasMinimumAcademicKeywords_card:
  "hasMinimumAcademicKeywords text (int n) m = (m \<le> int (card (distinct_keywords (take n text))))"
  by (simp add: hasMinimumAcademicKeywords_def Let_def slice0_nat count_countKeywordsInText)

lemma occurs_ci_take:
  assumes "occurs_ci kw (take n text)" and "kw \<noteq> []"
  shows "\<exists>a w b. text = a @ w @ b \<and> toLowerCase w = kw \<and> length a < n"
proof -
  from assms(1) obtain a w b where t: "take n text = a @ w @ b" and w: "toLowerCase w = kw"
    by (auto simp: occurs_ci_def)
  from w assms(2) have "w \<noteq> []" by (auto simp: toLowerCase_def)
  have "length (take n text) \<le> n" by simp
  with t \<open>w \<noteq> []\<close> have "length a < n"
    by (cases w) auto
  moreover have "text = a @ w @ (b @ drop n text)"
    using t append_take_drop_id[of n "text"] by (metis append.assoc)
  ultimately show ?thesis using w by blast
qed

text \<open>
  Claim C7. For every text, prefix length and minimum, the quick check
  \<^verbatim>\<open>hasMinimumAcademicKeywords\<close> returns true if and only if the number of distinct
  vocabulary keywords that occur, case-insensitively, as substrings of the first
  \<open>prefixChars\<close> characters of the text is at least \<open>minDistinct\<close>. In particular a text
  whose keywords all occur only after character 5000, checked with a prefix of 1000
  characters, is rejected (for every positive minimum).
\<close>

theorem quickCheck_prefix:
  "hasMinimumAcademicKeywords text (int n) m = (m \<le> int (card (distinct_keywords (take n text))))
   \<and> ((\<forall>kw \<in> set ACADEMIC_KEYWORDS. \<forall>a w b. text = a @ w @ b \<and> toLowerCase w = kw \<longrightarrow> 5000 \<le> length a)
        \<longrightarrow> 0 < m \<longrightarrow> \<not> hasMinimumAcademicKeywords text 1000 m)"
proof (intro conjI impI)
  show "hasMinimumAcademicKeywords text (int n) m = (m \<le> int (card (distinct_keywords (take n text))))"
    by (rule hasMinimumAcademicKeywords_card)
next
  assume late: "\<forall>kw \<in> set ACADEMIC_KEYWORDS. \<forall>a w b. text = a @ w @ b \<and> toLowerCase w = kw \<longrightarrow> 5000 \<le> length a"
    and m: "0 < m"
  have "distinct_keywords (take 1000 text) = {}"
  proof (rule ccontr)
    assume "distinct_keywords (take 1000 text) \<noteq> {}"
    then obtain kw where kw: "kw \<in> set ACADEMIC_KEYWORDS" and occ: "occurs_ci kw (take 1000 text)"
      by (auto simp: distinct_keywords_def)
    from kw have "kw \<noteq> []" using Nil_notin_ACADEMIC_KEYWORDS by auto
    from occurs_ci_take[OF occ this] obtain a w b
      where "text = a @ w @ b" "toLowerCase w = kw" "length a < 1000" by blast
    with late kw show False by fastforce
  qed
  then have "card (distinct_keywords (take 1000 text)) = 0" by simp
  with m hasMinimumAcademicKeywords_card[of "text" 1000 m]
  show "\<not> hasMinimumAcademicKeywords text 1000 m" by simp
qed

lemma late_text_late:
  "\<forall>kw \<in> set ACADEMIC_KEYWORDS. \<forall>a w b. late_text = a @ w @ b \<and> toLowerCase w = kw \<longrightarrow> 5000 \<le> length a"
proof (intro ballI allI impI)
  fix kw a w b
  assume kw: "kw \<in> set ACADEMIC_KEYWORDS" and "late_text = a @ w @ b \<and> toLowerCase w = kw"
  then have t: "late_text = a @ w @ b" and w: "toLowerCase w = kw" by auto
  show "5000 \<le> length a"
  proof (rule ccontr)
    assume "\<not> 5000 \<le> length a"
    then have la: "length a < 5001" by simp
    from kw w have "w \<noteq> []" using Nil_notin_ACADEMIC_KEYWORDS by (auto simp: toLowerCase_def)
    then obtain x w' where wx: "w = x # w'" by (cases w) auto
    have "late_text ! length a = x" by (simp add: t wx)
    moreover have "late_text ! length a = CHR ''-''"
      using la by (simp add: late_text_def nth_append)
    ultimately have "x = CHR ''-''" by simp
    with w wx have "hd kw = toLowerCase_char CHR ''-''" by (auto simp: toLowerCase_def)
    then have "hd kw = CHR ''-''" by (simp add: toLowerCase_char_def)
    with kw show False by (auto simp: ACADEMIC_KEYWORDS_def)
  qed
qed

text \<open>The witness: 5001 dashes followed by "syllabus exam".\<close>

theorem quickCheck_prefix_witness:
  "\<not> hasMinimumAcademicKeywords late_text 1000 2
   \<and> occurs_ci ''syllabus'' late_text \<and> occurs_ci ''exam'' late_text"
proof -
  have "\<not> hasMinimumAcademicKeywords late_text 1000 2"
    using quickCheck_prefix[of late_text 0 2] late_text_late by simp
  moreover have "occurs_ci ''syllabus'' late_text"
    unfolding occurs_ci_def late_text_def
    by (rule exI[of _ "replicate 5001 CHR ''-''"], rule exI[of _ "''syllabus''"], rule exI[of _ "'' exam''"])
       (simp add: toLowerCase_def toLowerCase_char_def)
  moreover have "occurs_ci ''exam'' late_text"
    unfolding occurs_ci_def late_text_def
    by (rule exI[of _ "replicate 5001 CHR ''-'' @ ''syllabus ''"], rule exI[of _ "''exam''"], rule exI[of _ "[]"])
       (simp add: toLowerCase_def toLowerCase_char_def)
  ultimately show ?thesis by simp
qed

section \<open>Properties of the retry loop\<close>

declare generateContentWithRetry_from.simps [simp del]

lemma str_includes_nonempty: "str_includes s p \<Longrightarrow> p \<noteq> [] \<Longrightarrow> s \<noteq> []"
  by (cases s) auto

lemma has_fatal_no_retry: "has_fatal_substring e \<Longrightarrow> no_retry (errorMessage_of e)"
proof -
  assume "has_fatal_substring e"
  then obtain s where s: "s \<in> set fatal_substrings" and i: "str_includes (message e) s"
    by (auto simp: has_fatal_substring_def)
  from s have "s \<noteq> []" by (auto simp: fatal_substrings_def)
  with i have "message e \<noteq> []" by (rule str_includes_nonempty)
  with s i show ?thesis
    by (auto simp: errorMessage_of_def no_retry_def fatal_substrings_def)
qed

lemma classified_transient_retry:
  assumes "classified_transient e"
  shows "\<not> no_retry (errorMessage_of e)" and "retryable (errorMessage_of e)"
proof -
  from assms obtain s where s: "s \<in> set transient_substrings" and i: "str_includes (message e) s"
    and nf: "\<not> has_fatal_substring e"
    by (auto simp: classified_transient_def has_transient_substring_def)
  from s have "s \<noteq> []" by (auto simp: transient_substrings_def)
  with i have ne: "message e \<noteq> []" by (rule str_includes_nonempty)
  from nf ne show "\<not> no_retry (errorMessage_of e)"
    by (simp add: has_fatal_substring_def fatal_substrings_def errorMessage_of_def no_retry_def)
  from s i ne show "retryable (errorMessage_of e)"
    by (auto simp: errorMessage_of_def retryable_def transient_substrings_def)
qed

lemma retry_log_Suc:
  "retry_log name m (Suc n) = retry_log name m n @ before_attempt (Suc n) m @ [Call name (Suc n)]"
  by (simp add: retry_log_def before_attempt_def backoff_delay_def)

lemma retry_log_0: "retry_log name m 0 = []"
  by (simp add: retry_log_def)

text \<open>One step of the loop at a transient failure.\<close>

lemma from_transient_step:
  assumes "fails_transiently model a" and "a \<le> m"
  shows "\<exists>e. generateContent model a = Rejects e \<and> classified_transient e \<and>
     generateContentWithRetry_from model m a lastError =
       apsnd ((@) (before_attempt a m @ [Call (model_name model) a]))
         (generateContentWithRetry_from model m (Suc a) (Err e))"
proof -
  from assms(1) obtain e where e: "generateContent model a = Rejects e" and t: "classified_transient e"
    by (auto simp: fails_transiently_def split: outcome.splits)
  from classified_transient_retry[OF t] e assms(2)
  have "generateContentWithRetry_from model m a lastError =
       apsnd ((@) (before_attempt a m @ [Call (model_name model) a]))
         (generateContentWithRetry_from model m (Suc a) (Err e))"
    by (subst generateContentWithRetry_from.simps) (simp add: race_timeout_def Let_def)
  with e t show ?thesis by blast
qed

text \<open>After \<open>n\<close> transient failures in a row the loop stands at attempt \<open>n + 1\<close>.\<close>

lemma from_transient_run:
  assumes "\<forall>k. 1 \<le> k \<and> k \<le> n \<longrightarrow> fails_transiently model k" and "n \<le> m"
  shows "\<exists>lastError'. (0 < n \<longrightarrow> lastError' = (case generateContent model n of Rejects e \<Rightarrow> Err e | _ \<Rightarrow> Undefined)) \<and>
     (n = 0 \<longrightarrow> lastError' = Undefined) \<and>
     generateContentWithRetry model m =
       apsnd ((@) (retry_log (model_name model) m n))
         (generateContentWithRetry_from model m (Suc n) lastError')"
  using assms
proof (induction n)
  case 0
  then show ?case
    by (simp add: generateContentWithRetry_def retry_log_0 apsnd_def map_prod_def split_def)
next
  case (Suc n)
  then obtain lastError' where run: "generateContentWithRetry model m =
       apsnd ((@) (retry_log (model_name model) m n))
         (generateContentWithRetry_from model m (Suc n) lastError')"
    by force
  from Suc.prems have "fails_transiently model (Suc n)" and "Suc n \<le> m" by auto
  from from_transient_step[OF this, of lastError'] obtain e
    where e: "generateContent model (Suc n) = Rejects e"
      and step: "generateContentWithRetry_from model m (Suc n) lastError' =
       apsnd ((@) (before_attempt (Suc n) m @ [Call (model_name model) (Suc n)]))
         (generateContentWithRetry_from model m (Suc (Suc n)) (Err e))"
    by blast
  show ?case
    by (rule exI[of _ "Err e"]) (simp add: run step e retry_log_Suc apsnd_def map_prod_def split_def)
qed


lemma from_resolves:
  assumes "a \<le> m" and "generateContent model a = Resolves r"
  shows "generateContentWithRetry_from model m a lastError =
           (Inr r, before_attempt a m @ [Call (model_name model) a])"
  using assms by (subst generateContentWithRetry_from.simps) (simp add: race_timeout_def Let_def)

lemma from_no_retry:
  assumes "a \<le> m" and "generateContent model a = Rejects e" and "no_retry (errorMessage_of e)"
  shows "generateContentWithRetry_from model m a lastError =
           (Inl (Err e), before_attempt a m @ [Call (model_name model) a])"
  using assms by (subst generateContentWithRetry_from.simps) (simp add: race_timeout_def Let_def)

lemma from_unknown:
  assumes "a \<le> m" and "generateContent model a = Rejects e"
    and "\<not> retryable (errorMessage_of e)"
  shows "generateContentWithRetry_from model m a lastError =
           (Inl (Err e), before_attempt a m @ [Call (model_name model) a])"
  using assms by (subst generateContentWithRetry_from.simps) (simp add: race_timeout_def Let_def)

lemma from_exhausted:
  assumes "m < a"
  shows "generateContentWithRetry_from model m a lastError = (Inl lastError, [])"
  using assms by (subst generateContentWithRetry_from.simps) simp

lemma attempts_of_append [simp]: "attempts_of name (xs @ ys) = attempts_of name xs @ attempts_of name ys"
  by (simp add: attempts_of_def)

lemma attempts_of_Nil [simp]: "attempts_of name [] = []"
  by (simp add: attempts_of_def)

lemma attempts_of_Call [simp]:
  "attempts_of name (Call name k # evs) = k # attempts_of name evs"
  by (simp add: attempts_of_def)

lemma sleeps_of_append [simp]: "sleeps_of (xs @ ys) = sleeps_of xs @ sleeps_of ys"
  by (simp add: sleeps_of_def)

lemma attempts_of_retry_log: "attempts_of name (retry_log name m n) = [1..<Suc n]"
  by (induction n)
     (simp_all add: retry_log_0 retry_log_Suc before_attempt_def, simp_all add: attempts_of_def)

lemma sleeps_of_retry_log:
  "sleeps_of (retry_log name m n) = map (\<lambda>k. min (1000 * 2 ^ (k - 2)) 10000) [2..<Suc n]"
proof (induction n)
  case 0
  then show ?case by (simp add: retry_log_0 sleeps_of_def)
next
  case (Suc n)
  then show ?case
    by (cases "n = 0") (auto simp: retry_log_Suc before_attempt_def backoff_delay_def sleeps_of_def)
qed

lemma run_then_resolves:
  assumes "\<forall>k. 1 \<le> k \<and> k \<le> n \<longrightarrow> fails_transiently model k" and "n < m"
    and "generateContent model (Suc n) = Resolves r"
  shows "generateContentWithRetry model m = (Inr r, retry_log (model_name model) m (Suc n))"
proof -
  from assms(2) have "n \<le> m" by simp
  from from_transient_run[OF assms(1) this] obtain lastError' where
    "generateContentWithRetry model m =
       apsnd ((@) (retry_log (model_name model) m n))
         (generateContentWithRetry_from model m (Suc n) lastError')" by blast
  moreover from assms(2) have "Suc n \<le> m" by simp
  ultimately show ?thesis
    by (simp add: from_resolves[OF _ assms(3)] retry_log_Suc)
qed

lemma run_then_no_retry:
  assumes "\<forall>k. 1 \<le> k \<and> k \<le> n \<longrightarrow> fails_transiently model k" and "n < m"
    and "generateContent model (Suc n) = Rejects e" and "no_retry (errorMessage_of e)"
  shows "generateContentWithRetry model m = (Inl (Err e), retry_log (model_name model) m (Suc n))"
proof -
  from assms(2) have "n \<le> m" by simp
  from from_transient_run[OF assms(1) this] obtain lastError' where
    "generateContentWithRetry model m =
       apsnd ((@) (retry_log (model_name model) m n))
         (generateContentWithRetry_from model m (Suc n) lastError')" by blast
  moreover from assms(2) have "Suc n \<le> m" by simp
  ultimately show ?thesis
    by (simp add: from_no_retry[OF _ assms(3,4)] retry_log_Suc)
qed

lemma run_exhausted:
  assumes "\<forall>k. 1 \<le> k \<and> k \<le> m \<longrightarrow> fails_transiently model k" and "0 < m"
    and "generateContent model m = Rejects e"
  shows "generateContentWithRetry model m = (Inl (Err e), retry_log (model_name model) m m)"
proof -
  from from_transient_run[OF assms(1) order_refl] assms(2,3) obtain lastError' where
    "lastError' = Err e" and
    "generateContentWithRetry model m =
       apsnd ((@) (retry_log (model_name model) m m))
         (generateContentWithRetry_from model m (Suc m) lastError')" by force
  then show ?thesis
    by (simp add: from_exhausted)
qed

lemma from_attempts_bound:
  "length (attempts_of (model_name model) (snd (generateContentWithRetry_from model m a lastError)))
     \<le> Suc m - a"
proof (induction model m a lastError rule: generateContentWithRetry_from.induct)
  case (1 model maxRetries attempt lastError)
  show ?case
  proof (cases "attempt \<le> maxRetries")
    case False
    then show ?thesis by (simp add: from_exhausted attempts_of_def)
  next
    case True
    have b: "attempts_of (model_name model) (before_attempt attempt maxRetries) = []"
      by (auto simp: before_attempt_def attempts_of_def)
    have c: "attempts_of (model_name model) [Call (model_name model) attempt] = [attempt]"
      by (simp add: attempts_of_def)
    show ?thesis
    proof (cases "race_timeout (generateContent model attempt)")
      case (Inr response)
      with True show ?thesis
        by (subst generateContentWithRetry_from.simps) (simp add: b c Let_def)
    next
      case (Inl error)
      show ?thesis
      proof (cases "\<not> no_retry (errorMessage_of error) \<and> retryable (errorMessage_of error)")
        case False
        with True Inl show ?thesis
          by (subst generateContentWithRetry_from.simps) (auto simp: b c Let_def)
      next
        case retry: True
        with "1.IH"[OF True refl Inl refl] True
        have "length (attempts_of (model_name model)
                (snd (generateContentWithRetry_from model maxRetries (Suc attempt) (Err error))))
              \<le> Suc maxRetries - Suc attempt" by simp
        with True Inl retry show ?thesis
          by (subst generateContentWithRetry_from.simps) (simp add: b c Let_def)
      qed
    qed
  qed
qed

text \<open>The timer is fatal: an attempt that is still pending when it fires ends the loop.\<close>

lemma from_pending:
  assumes "a \<le> m" and "generateContent model a = Pending"
  shows "generateContentWithRetry_from model m a lastError =
           (Inl (Err (new_Error ''Request timeout'')),
            before_attempt a m @ [Call (model_name model) a])"
proof -
  have "no_retry (errorMessage_of (new_Error ''Request timeout''))"
    by (simp add: no_retry_def errorMessage_of_def new_Error_def)
  with assms show ?thesis
    by (subst generateContentWithRetry_from.simps) (simp add: race_timeout_def Let_def)
qed

text \<open>\<^verbatim>\<open>undefined\<close> is thrown only when the loop makes no attempt.\<close>

lemma from_throws_undefined:
  "fst (generateContentWithRetry_from model m a lastError) = Inl Undefined \<Longrightarrow>
     lastError = Undefined \<and> m < a"
proof (induction model m a lastError rule: generateContentWithRetry_from.induct)
  case (1 model maxRetries attempt lastError)
  show ?case
  proof (cases "attempt \<le> maxRetries")
    case False
    with "1.prems" show ?thesis by (simp add: from_exhausted)
  next
    case True
    show ?thesis
    proof (cases "race_timeout (generateContent model attempt)")
      case (Inr response)
      with True "1.prems" show ?thesis
        by (subst (asm) generateContentWithRetry_from.simps) (simp add: Let_def)
    next
      case (Inl error)
      show ?thesis
      proof (cases "\<not> no_retry (errorMessage_of error) \<and> retryable (errorMessage_of error)")
        case False
        with True Inl "1.prems" show ?thesis
          by (subst (asm) generateContentWithRetry_from.simps) (auto simp: Let_def split: if_splits)
      next
        case retry: True
        with True Inl "1.prems"
        have "fst (generateContentWithRetry_from model maxRetries (Suc attempt) (Err error)) =
            Inl Undefined"
          by (subst (asm) generateContentWithRetry_from.simps) (simp add: Let_def)
        with "1.IH"[OF True refl Inl refl] retry show ?thesis by simp
      qed
    qed
  qed
qed

lemma generateContentWithRetry_defined:
  "0 < m \<Longrightarrow> fst (generateContentWithRetry model m) \<noteq> Inl Undefined"
  using from_throws_undefined[of model m 1 Undefined]
  by (auto simp: generateContentWithRetry_def)

lemma upt_small:
  "[Suc 0..<4] = [Suc 0, 2, 3]" "[2..<4] = [2, 3]" "[Suc 0..<3] = [Suc 0, 2]" "[2..<3] = [2]"
  by (simp_all add: numeral_eq_Suc)

lemmas retry_eval =
  fails_transiently_def classified_transient_def has_transient_substring_def
  has_fatal_substring_def fatal_substrings_def transient_substrings_def new_Error_def
  retry_log_def retrying_message_def

text \<open>
  Claim C3. When the attempts fail with errors classified transient (the message contains
  503, 500, 429 or "high demand"), \<^verbatim>\<open>generateContentWithRetry\<close> retries, up to
  \<open>maxAttempts\<close> attempts in all; before each retry it reports progress and then waits
  \<open>min(1000 * 2^(attempt-2), 10000)\<close> ms. A model that fails twice transiently and then
  succeeds is attempted exactly 3 times and its response is returned; after
  \<open>maxAttempts\<close> transient failures in a row the last of these errors is thrown.
\<close>

theorem generateContentWithRetry_transient:
  "((\<forall>k. 1 \<le> k \<and> k \<le> n \<longrightarrow> fails_transiently model k) \<and> n < maxAttempts \<and>
      generateContent model (Suc n) = Resolves r
     \<longrightarrow> generateContentWithRetry model maxAttempts =
           (Inr r, retry_log (model_name model) maxAttempts (Suc n)))
   \<and> ((\<forall>k. 1 \<le> k \<and> k \<le> maxAttempts \<longrightarrow> fails_transiently model k) \<and> 0 < maxAttempts \<and>
      generateContent model maxAttempts = Rejects e
     \<longrightarrow> generateContentWithRetry model maxAttempts =
           (Inl (Err e), retry_log (model_name model) maxAttempts maxAttempts))
   \<and> (fails_transiently model 1 \<and> fails_transiently model 2 \<and>
      generateContent model 3 = Resolves r \<and> 3 \<le> maxAttempts
     \<longrightarrow> fst (generateContentWithRetry model maxAttempts) = Inr r \<and>
         attempts_of (model_name model) (snd (generateContentWithRetry model maxAttempts)) = [1, 2, 3] \<and>
         sleeps_of (snd (generateContentWithRetry model maxAttempts)) = [1000, 2000])
   \<and> length (attempts_of (model_name model) (snd (generateContentWithRetry model maxAttempts)))
        \<le> maxAttempts"
proof (intro conjI impI)
  assume "(\<forall>k. 1 \<le> k \<and> k \<le> n \<longrightarrow> fails_transiently model k) \<and> n < maxAttempts \<and>
      generateContent model (Suc n) = Resolves r"
  then show "generateContentWithRetry model maxAttempts =
           (Inr r, retry_log (model_name model) maxAttempts (Suc n))"
    using run_then_resolves[of n model maxAttempts r] by blast
next
  assume "(\<forall>k. 1 \<le> k \<and> k \<le> maxAttempts \<longrightarrow> fails_transiently model k) \<and> 0 < maxAttempts \<and>
      generateContent model maxAttempts = Rejects e"
  then show "generateContentWithRetry model maxAttempts =
           (Inl (Err e), retry_log (model_name model) maxAttempts maxAttempts)"
    using run_exhausted[of maxAttempts model e] by blast
next
  assume a: "fails_transiently model 1 \<and> fails_transiently model 2 \<and>
      generateContent model 3 = Resolves r \<and> 3 \<le> maxAttempts"
  then have "\<forall>k. 1 \<le> k \<and> k \<le> 2 \<longrightarrow> fails_transiently model k"
    by (auto simp: le_Suc_eq numeral_2_eq_2)
  moreover from a have "2 < maxAttempts" and "generateContent model (Suc 2) = Resolves r"
    by (simp_all add: numeral_3_eq_3 numeral_2_eq_2)
  ultimately have run: "generateContentWithRetry model maxAttempts =
      (Inr r, retry_log (model_name model) maxAttempts (Suc 2))"
    by (rule run_then_resolves)
  show "fst (generateContentWithRetry model maxAttempts) = Inr r"
    by (simp add: run)
  show "attempts_of (model_name model) (snd (generateContentWithRetry model maxAttempts)) = [1, 2, 3]"
    by (simp add: run attempts_of_retry_log upt_small)
  show "sleeps_of (snd (generateContentWithRetry model maxAttempts)) = [1000, 2000]"
    by (simp add: run sleeps_of_retry_log upt_small)
next
  show "length (attempts_of (model_name model) (snd (generateContentWithRetry model maxAttempts)))
        \<le> maxAttempts"
    using from_attempts_bound[of model maxAttempts 1 Undefined]
    by (simp add: generateContentWithRetry_def)
qed

text \<open>The witness: two answers 503 and then a response; and a server that answers 429 at
  each of the three attempts.\<close>

theorem generateContentWithRetry_transient_witness:
  "generateContentWithRetry flaky_model 3 =
     (Inr ''{}'',
      [Call ''gemini-1.5-flash'' 1,
       Progress ''Retrying... (Attempt 2/3)'', Sleep 1000, Call ''gemini-1.5-flash'' 2,
       Progress ''Retrying... (Attempt 3/3)'', Sleep 2000, Call ''gemini-1.5-flash'' 3])
   \<and> fst (generateContentWithRetry busy_model 3) = Inl (Err (new_Error ''429 Too Many Requests''))
   \<and> attempts_of ''gemini-1.5-flash'' (snd (generateContentWithRetry busy_model 3)) = [1, 2, 3]"
proof -
  have f: "\<forall>k. 1 \<le> k \<and> k \<le> 2 \<longrightarrow> fails_transiently flaky_model k"
    by (simp add: flaky_model_def retry_eval)
  have b: "\<forall>k. 1 \<le> k \<and> k \<le> 3 \<longrightarrow> fails_transiently busy_model k"
    by (simp add: busy_model_def retry_eval)
  have nf: "model_name flaky_model = ''gemini-1.5-flash''"
    and nb: "model_name busy_model = ''gemini-1.5-flash''"
    and g3: "generateContent flaky_model (Suc 2) = Resolves ''{}''"
    and gb: "generateContent busy_model 3 = Rejects (new_Error ''429 Too Many Requests'')"
    by (simp_all add: flaky_model_def busy_model_def)
  have r1: "generateContentWithRetry flaky_model 3 =
      (Inr ''{}'', retry_log ''gemini-1.5-flash'' 3 (Suc 2))"
    using generateContentWithRetry_transient[of 2 flaky_model 3 "''{}''"] f g3
    by (simp add: nf)
  have r2: "generateContentWithRetry busy_model 3 =
      (Inl (Err (new_Error ''429 Too Many Requests'')), retry_log ''gemini-1.5-flash'' 3 3)"
    using generateContentWithRetry_transient[of 3 busy_model 3 _ "new_Error ''429 Too Many Requests''"] b gb
    by (simp add: nb)
  have log: "retry_log ''gemini-1.5-flash'' 3 3 =
     [Call ''gemini-1.5-flash'' 1,
       Progress ''Retrying... (Attempt 2/3)'', Sleep 1000, Call ''gemini-1.5-flash'' 2,
       Progress ''Retrying... (Attempt 3/3)'', Sleep 2000, Call ''gemini-1.5-flash'' 3]"
    by (simp add: retry_log_def retrying_message_def upt_small)
  show ?thesis
    by (simp add: r1 r2 log attempts_of_def)
qed


text \<open>
  Claim C4. At every attempt of \<^verbatim>\<open>generateContentWithRetry\<close>, an error whose message contains
  one of "timeout", "invalid", "quota", "401", "403" is thrown again at once and no further
  attempt is made; a model that fails at the first attempt with a message containing "401"
  is attempted exactly once, and nothing sleeps.
\<close>

theorem generateContentWithRetry_fatal:
  "((\<forall>k. 1 \<le> k \<and> k \<le> n \<longrightarrow> fails_transiently model k) \<and> n < maxAttempts \<and>
      generateContent model (Suc n) = Rejects e \<and> has_fatal_substring e
     \<longrightarrow> generateContentWithRetry model maxAttempts =
           (Inl (Err e), retry_log (model_name model) maxAttempts (Suc n)) \<and>
         attempts_of (model_name model) (snd (generateContentWithRetry model maxAttempts)) =
           [1..<Suc (Suc n)])
   \<and> (generateContent model 1 = Rejects e \<and> str_includes (message e) ''401'' \<and> 0 < maxAttempts
     \<longrightarrow> generateContentWithRetry model maxAttempts = (Inl (Err e), [Call (model_name model) 1]))"
proof (intro conjI impI)
  assume a: "(\<forall>k. 1 \<le> k \<and> k \<le> n \<longrightarrow> fails_transiently model k) \<and> n < maxAttempts \<and>
      generateContent model (Suc n) = Rejects e \<and> has_fatal_substring e"
  then have "no_retry (errorMessage_of e)" by (simp add: has_fatal_no_retry)
  with a show run: "generateContentWithRetry model maxAttempts =
           (Inl (Err e), retry_log (model_name model) maxAttempts (Suc n))"
    using run_then_no_retry[of n model maxAttempts e] by blast
  show "attempts_of (model_name model) (snd (generateContentWithRetry model maxAttempts)) =
           [1..<Suc (Suc n)]"
    by (simp only: run snd_conv attempts_of_retry_log)
next
  assume a: "generateContent model 1 = Rejects e \<and> str_includes (message e) ''401'' \<and> 0 < maxAttempts"
  then have "has_fatal_substring e"
    by (auto simp: has_fatal_substring_def fatal_substrings_def)
  then have "no_retry (errorMessage_of e)" by (rule has_fatal_no_retry)
  with a have "generateContentWithRetry model maxAttempts =
           (Inl (Err e), retry_log (model_name model) maxAttempts (Suc 0))"
    using run_then_no_retry[of 0 model maxAttempts e] by simp
  then show "generateContentWithRetry model maxAttempts = (Inl (Err e), [Call (model_name model) 1])"
    by (simp add: retry_log_def)
qed

text \<open>The witness: a model that answers "401 Unauthorized".\<close>

theorem generateContentWithRetry_fatal_witness:
  "generateContentWithRetry denied_model 3 =
     (Inl (Err (new_Error ''401 Unauthorized'')), [Call ''gemini-1.5-pro'' 1])
   \<and> sleeps_of (snd (generateContentWithRetry denied_model 3)) = []"
proof -
  have g: "generateContent denied_model 1 = Rejects (new_Error ''401 Unauthorized'')"
    and n: "model_name denied_model = ''gemini-1.5-pro''"
    by (simp_all add: denied_model_def)
  have i: "str_includes (message (new_Error ''401 Unauthorized'')) ''401''"
    by (simp add: new_Error_def)
  have "generateContentWithRetry denied_model 3 =
     (Inl (Err (new_Error ''401 Unauthorized'')), [Call ''gemini-1.5-pro'' 1])"
    using generateContentWithRetry_fatal[of 0 denied_model 3 "new_Error ''401 Unauthorized''"] g i
    by (simp add: n)
  then show ?thesis by (simp add: sleeps_of_def)
qed

text \<open>
  Claim C10. An error whose message contains both a fatal substring and a transient one is
  classified fatal: the test for the fatal substrings comes first, at every attempt, and
  the error is thrown again at once, without a retry.
\<close>

theorem fatal_takes_precedence:
  "(has_fatal_substring e \<and> has_transient_substring e
     \<longrightarrow> no_retry (errorMessage_of e) \<and> \<not> classified_transient e)
   \<and> ((\<forall>k. 1 \<le> k \<and> k \<le> n \<longrightarrow> fails_transiently model k) \<and> n < maxAttempts \<and>
      generateContent model (Suc n) = Rejects e \<and>
      has_fatal_substring e \<and> has_transient_substring e
     \<longrightarrow> fst (generateContentWithRetry model maxAttempts) = Inl (Err e) \<and>
         attempts_of (model_name model) (snd (generateContentWithRetry model maxAttempts)) =
           [1..<Suc (Suc n)])"
proof (intro conjI impI)
  assume "has_fatal_substring e \<and> has_transient_substring e"
  then show "no_retry (errorMessage_of e)" and "\<not> classified_transient e"
    by (simp_all add: has_fatal_no_retry classified_transient_def)
next
  assume a: "(\<forall>k. 1 \<le> k \<and> k \<le> n \<longrightarrow> fails_transiently model k) \<and> n < maxAttempts \<and>
      generateContent model (Suc n) = Rejects e \<and>
      has_fatal_substring e \<and> has_transient_substring e"
  then have "no_retry (errorMessage_of e)" by (simp add: has_fatal_no_retry)
  with a have run: "generateContentWithRetry model maxAttempts =
           (Inl (Err e), retry_log (model_name model) maxAttempts (Suc n))"
    using run_then_no_retry[of n model maxAttempts e] by blast
  show "fst (generateContentWithRetry model maxAttempts) = Inl (Err e)"
    by (simp add: run)
  show "attempts_of (model_name model) (snd (generateContentWithRetry model maxAttempts)) =
           [1..<Suc (Suc n)]"
    by (simp only: run snd_conv attempts_of_retry_log)
qed

text \<open>The witness: a failure 500, then "503 invalid response from upstream".\<close>

theorem fatal_takes_precedence_witness:
  "fst (generateContentWithRetry mixed_model 3) =
     Inl (Err (new_Error ''503 invalid response from upstream''))
   \<and> attempts_of ''gemini-1.5-pro'' (snd (generateContentWithRetry mixed_model 3)) = [1, 2]
   \<and> has_transient_substring (new_Error ''503 invalid response from upstream'')"
proof -
  have t: "\<forall>k. 1 \<le> k \<and> k \<le> 1 \<longrightarrow> fails_transiently mixed_model k"
    by (simp add: mixed_model_def retry_eval)
  have g: "generateContent mixed_model (Suc 1) = Rejects (new_Error ''503 invalid response from upstream'')"
    and n: "model_name mixed_model = ''gemini-1.5-pro''"
    by (simp_all add: mixed_model_def)
  have f: "has_fatal_substring (new_Error ''503 invalid response from upstream'')"
    and r: "has_transient_substring (new_Error ''503 invalid response from upstream'')"
    by (simp_all add: retry_eval)
  from fatal_takes_precedence[of "new_Error ''503 invalid response from upstream''" 1 mixed_model 3]
    t g f r
  show ?thesis by (simp add: n upt_small)
qed

section \<open>Properties of the response interpreter\<close>

lemma check_rejection_reason_text:
  assumes "is_rejection analysis" and "reason_text analysis = Some reason"
  shows "check_rejection analysis =
     Inl \<lparr>message = (if reason = [] then unrelated_message else reason),
          toString = ''Error: '' @ (if reason = [] then unrelated_message else reason),
          code = Some INVALID_DOCUMENT,
          detectedType = Some (detected_label reason),
          status = None\<rparr>"
proof -
  from assms(1) obtain kvs where a: "analysis = JObject kvs"
    by (cases analysis) (auto simp: is_rejection_def)
  with assms show ?thesis
    by (auto simp: check_rejection_def is_rejection_def reason_text_def
        split: option.splits json.splits if_splits)
qed

lemma check_rejection_not_text:
  assumes "is_rejection analysis" and "reason_text analysis = None"
  shows "check_rejection analysis = Inl (new_TypeError ''(intermediate value).match is not a function'')"
proof -
  from assms(1) obtain kvs where a: "analysis = JObject kvs"
    by (cases analysis) (auto simp: is_rejection_def)
  with assms show ?thesis
    by (auto simp: check_rejection_def is_rejection_def reason_text_def
        split: option.splits json.splits if_splits)
qed

lemma check_rejection_other: "\<not> is_rejection analysis \<Longrightarrow> check_rejection analysis = Inr analysis"
  by (simp add: check_rejection_def is_rejection_def)

text \<open>The rejection on the direct path.\<close>

lemma processResponse_rejection:
  assumes "parse (trim (candidate text)) = Inr analysis"
    and "is_rejection analysis" and "reason_text analysis = Some reason"
  shows "\<exists>e. processResponse parse text = Inl e \<and> code e = Some INVALID_DOCUMENT \<and>
           detectedType e = Some (detected_label reason) \<and> e \<noteq> parse_failure"
  using assms
  by (simp add: processResponse_def candidate_def[symmetric] parse_and_check_def
      check_rejection_reason_text parse_failure_def new_Error_def)

text \<open>The rejection on the recovery path.\<close>

lemma processResponse_rejection_recovered:
  assumes "parse (trim (candidate text)) = Inl m"
    and "match_braces (candidate text) = Some jsonObject"
    and "parse jsonObject = Inr analysis"
    and "is_rejection analysis" and "reason_text analysis = Some reason"
  shows "\<exists>e. processResponse parse text = Inl e \<and> code e = Some INVALID_DOCUMENT \<and>
           detectedType e = Some (detected_label reason) \<and> e \<noteq> parse_failure"
  using assms
  by (simp add: processResponse_def candidate_def[symmetric] parse_and_check_def
      check_rejection_reason_text parse_failure_def new_Error_def new_SyntaxError_def)

lemma detected_label_train_ticket: "detected_label ''... (detected: Train Ticket)'' = ''Train Ticket''"
  by (simp add: detected_label_def detected_group_def trim_def is_ws_def)

lemma train_ticket_candidate:
  "candidate train_ticket_text = train_ticket_text" "trim train_ticket_text = train_ticket_text"
  by (simp_all add: candidate_def train_ticket_text_def fence_def trim_def is_ws_def)

lemma processResponse_train_ticket:
  "\<exists>e. processResponse example_parse train_ticket_text = Inl e \<and> code e = Some INVALID_DOCUMENT \<and>
           detectedType e = Some ''Train Ticket''"
proof -
  have "example_parse (trim (candidate train_ticket_text)) = Inr train_ticket_value"
    by (simp add: train_ticket_candidate example_parse_def)
  moreover have "is_rejection train_ticket_value"
    by (simp add: is_rejection_def train_ticket_value_def INVALID_DOCUMENT_def)
  moreover have "reason_text train_ticket_value = Some ''... (detected: Train Ticket)''"
    by (simp add: reason_text_def train_ticket_value_def)
  ultimately show ?thesis
    using processResponse_rejection[of example_parse train_ticket_text train_ticket_value]
    by (auto simp: detected_label_train_ticket)
qed

lemma array_reason_candidate:
  "candidate array_reason_text = array_reason_text" "trim array_reason_text = array_reason_text"
  "match_braces array_reason_text = Some array_reason_text"
  by (simp_all add: candidate_def array_reason_text_def fence_def trim_def is_ws_def match_braces_def)

lemma array_reason_neq: "array_reason_text \<noteq> train_ticket_text"
  by (simp add: array_reason_text_def train_ticket_text_def)

text \<open>
  Claim C5 says that whenever the parsed response is an object whose \<^verbatim>\<open>error\<close> field is the
  sentinel, \<^verbatim>\<open>processResponse\<close> throws an error with the code \<^verbatim>\<open>INVALID_DOCUMENT\<close> and never
  reports a parse failure. The lemmas above show this for a reason that is a string, or
  absent, or falsy, on both paths. For a rejection whose reason is an array the call of
  \<^verbatim>\<open>match\<close> throws inside both \<^verbatim>\<open>try\<close> blocks, and what \<^verbatim>\<open>processResponse\<close> throws is the
  parse failure, which has no code.
\<close>

theorem processResponse_array_reason:
  "example_parse array_reason_text = Inr array_reason_value
   \<and> is_rejection array_reason_value
   \<and> processResponse example_parse array_reason_text = Inl parse_failure
   \<and> code parse_failure = None"
proof -
  have p: "example_parse array_reason_text = Inr array_reason_value"
    by (simp add: example_parse_def array_reason_neq)
  have r: "is_rejection array_reason_value"
    by (simp add: is_rejection_def array_reason_value_def INVALID_DOCUMENT_def)
  have "reason_text array_reason_value = None"
    by (simp add: reason_text_def array_reason_value_def)
  with r have c: "check_rejection array_reason_value =
      Inl (new_TypeError ''(intermediate value).match is not a function'')"
    by (rule check_rejection_not_text)
  have "processResponse example_parse array_reason_text = Inl parse_failure"
    by (simp add: processResponse_def candidate_def[symmetric] array_reason_candidate
        parse_and_check_def p c new_TypeError_def)
  with p r show ?thesis by (simp add: parse_failure_def new_Error_def)
qed

section \<open>Properties of the orchestrator\<close>

lemma normalize_gate_error: "normalize_error gate_error = gate_error"
  by (simp add: normalize_error_def gate_error_def)

lemma extracted_length: "length (extracted_or_empty file) \<le> 4000"
  by (simp add: extracted_or_empty_def extractTextFromPdf_def slice0_def split: option.splits)

lemma combinedText_extracted:
  "combinedText syllabusFile pyqFile =
     take 8000 (extracted_or_empty syllabusFile @ [CHR 0x0A] @ extracted_or_empty pyqFile)"
  by (simp add: combinedText_def extracted_or_empty_def slice0_def Let_def)

lemma combinedText_no_pages:
  "pdf_pages file = None \<Longrightarrow> extracted_or_empty file = extracted_or_empty (file\<lparr>pdf_pages := Some []\<rparr>)"
  by (simp add: extracted_or_empty_def extractTextFromPdf_def slice0_def)

text \<open>
  Claim C1. For every pair of files whose combined extracted text (each file capped at
  4000 characters, the concatenation cut at 8000) fails the density check,
  \<^verbatim>\<open>analyzeExamStrategy\<close> throws the error of the gate, with the code \<^verbatim>\<open>INVALID_DOCUMENT\<close>,
  before any call of a model, and the caller gets that error unchanged. A failed
  extraction of either file is tolerated: its text is empty, and the run is the run on a
  file without pages.
\<close>

theorem analyzeExamStrategy_gate:
  "(\<not> passed (validateDocumentContent (combinedText syllabusFile pyqFile))
      \<longrightarrow> analyzeExamStrategy env syllabusFile pyqFile =
            (Inl gate_error, [Progress ''Step 1: Extracting PDFs...'']) \<and>
          attempts_of name (snd (analyzeExamStrategy env syllabusFile pyqFile)) = [])
   \<and> code gate_error = Some INVALID_DOCUMENT
   \<and> combinedText syllabusFile pyqFile =
       take 8000 (extracted_or_empty syllabusFile @ [CHR 0x0A] @ extracted_or_empty pyqFile)
   \<and> length (extracted_or_empty syllabusFile) \<le> 4000
   \<and> length (extracted_or_empty pyqFile) \<le> 4000
   \<and> (pdf_pages syllabusFile = None \<longrightarrow>
        extracted_or_empty syllabusFile = [] \<and>
        analyzeExamStrategy env syllabusFile pyqFile =
          analyzeExamStrategy env (syllabusFile\<lparr>pdf_pages := Some []\<rparr>) pyqFile)
   \<and> (pdf_pages pyqFile = None \<longrightarrow>
        extracted_or_empty pyqFile = [] \<and>
        analyzeExamStrategy env syllabusFile pyqFile =
          analyzeExamStrategy env syllabusFile (pyqFile\<lparr>pdf_pages := Some []\<rparr>))"
proof (intro conjI impI)
  assume "\<not> passed (validateDocumentContent (combinedText syllabusFile pyqFile))"
  then show run: "analyzeExamStrategy env syllabusFile pyqFile =
            (Inl gate_error, [Progress ''Step 1: Extracting PDFs...''])"
    by (simp add: analyzeExamStrategy_def normalize_gate_error)
  show "attempts_of name (snd (analyzeExamStrategy env syllabusFile pyqFile)) = []"
    by (simp add: run attempts_of_def)
next
  show "code gate_error = Some INVALID_DOCUMENT" by (simp add: gate_error_def)
next
  show "combinedText syllabusFile pyqFile =
       take 8000 (extracted_or_empty syllabusFile @ [CHR 0x0A] @ extracted_or_empty pyqFile)"
    by (rule combinedText_extracted)
next
  show "length (extracted_or_empty syllabusFile) \<le> 4000" "length (extracted_or_empty pyqFile) \<le> 4000"
    by (rule extracted_length)+
next
  assume n: "pdf_pages syllabusFile = None"
  then show "extracted_or_empty syllabusFile = []"
    by (simp add: extracted_or_empty_def extractTextFromPdf_def)
  from n have "combinedText syllabusFile pyqFile = combinedText (syllabusFile\<lparr>pdf_pages := Some []\<rparr>) pyqFile"
    by (simp add: combinedText_extracted combinedText_no_pages)
  then show "analyzeExamStrategy env syllabusFile pyqFile =
          analyzeExamStrategy env (syllabusFile\<lparr>pdf_pages := Some []\<rparr>) pyqFile"
    by (simp add: analyzeExamStrategy_def Let_def split: option.splits prod.splits sum.splits)
next
  assume n: "pdf_pages pyqFile = None"
  then show "extracted_or_empty pyqFile = []"
    by (simp add: extracted_or_empty_def extractTextFromPdf_def)
  from n have "combinedText syllabusFile pyqFile = combinedText syllabusFile (pyqFile\<lparr>pdf_pages := Some []\<rparr>)"
    by (simp add: combinedText_extracted combinedText_no_pages)
  then show "analyzeExamStrategy env syllabusFile pyqFile =
          analyzeExamStrategy env syllabusFile (pyqFile\<lparr>pdf_pages := Some []\<rparr>)"
    by (simp add: analyzeExamStrategy_def Let_def split: option.splits prod.splits sum.splits)
qed








lemma announce_no_calls [simp]: "attempts_of name (announce label) = []"
  by (simp add: announce_def attempts_of_def)

lemma unavailable_no_calls [simp]: "attempts_of name (unavailable label) = []"
  by (simp add: unavailable_def attempts_of_def)




lemma normalize_high_demand:
  assumes "high_demand (errorMessage_of e)" and "code e \<noteq> Some INVALID_DOCUMENT"
    and "\<not> no_retry (errorMessage_of e)" and "\<not> str_includes (errorMessage_of e) ''429''"
  shows "normalize_error e = new_Error high_demand_message"
  using assms
  by (simp add: normalize_error_def high_demand_def no_retry_def high_demand_message_def Let_def)

lemma analyzeExamStrategy_models:
  assumes "passed (validateDocumentContent (combinedText syllabusFile pyqFile))"
    and "base64 syllabusFile = Some sd" and "base64 pyqFile = Some pd"
    and "API_KEY env = Some key" and "trim key \<noteq> []"
    and "try_models env ((sd, file_type syllabusFile), (pd, file_type pyqFile)) modelsToTry None = (r, evs)"
  shows "analyzeExamStrategy env syllabusFile pyqFile =
     ((case r of Inr analysis \<Rightarrow> Inr analysis | Inl error \<Rightarrow> Inl (normalize_error error)),
      Progress ''Step 1: Extracting PDFs...'' # evs)"
  using assms by (simp add: analyzeExamStrategy_def Let_def split: sum.splits)


lemma retry_log_1: "retry_log name m (Suc 0) = [Call name 1]"
  by (simp add: retry_log_def)

lemma try_block_resolves:
  assumes "service env name content 1 = Resolves t"
  shows "try_block env content name = (processResponse (JSON_parse env) t, [Call name 1])"
proof -
  let ?model = "\<lparr>model_name = name, generateContent = service env name content\<rparr>"
  have "generateContentWithRetry ?model 3 = (Inr t, retry_log (model_name ?model) 3 (Suc 0))"
    by (rule run_then_resolves) (use assms in simp_all)
  then show ?thesis by (simp add: try_block_def retry_log_1)
qed






lemma processResponse_array: "processResponse array_parse ''[]'' = Inr (JArray [])"
  by (simp add: processResponse_def fence_def trim_def is_ws_def parse_and_check_def
      array_parse_def check_rejection_def)

lemma scenario_gate:
  "passed (validateDocumentContent (combinedText scanned_file syllabus_file))"
  using double_eval
  by (simp add: combinedText_def extractTextFromPdf_def scanned_file_def syllabus_file_def
      heuristic_eval Let_def)

lemma scenario_gate_fails:
  "\<not> passed (validateDocumentContent (combinedText scanned_file scanned_file))"
  by (simp add: combinedText_def extractTextFromPdf_def scanned_file_def
      heuristic_eval Let_def)



lemma scenario_run:
  assumes "try_models (env_of svc) scenario_content modelsToTry None = (r, evs)"
  shows "analyzeExamStrategy (env_of svc) scanned_file syllabus_file =
     ((case r of Inr analysis \<Rightarrow> Inr analysis | Inl error \<Rightarrow> Inl (normalize_error error)),
      Progress ''Step 1: Extracting PDFs...'' # evs)"
proof (rule analyzeExamStrategy_models[OF scenario_gate])
  show "base64 scanned_file = Some ''JVBERi0y''" by (simp add: scanned_file_def)
  show "base64 syllabus_file = Some ''JVBERi0x''" by (simp add: syllabus_file_def)
  show "API_KEY (env_of svc) = Some ''key''" by (simp add: env_of_def)
  show "trim ''key'' \<noteq> []" by (simp add: trim_def is_ws_def)
  show "try_models (env_of svc) ((''JVBERi0y'', file_type scanned_file), ''JVBERi0x'', file_type syllabus_file)
          modelsToTry None = (r, evs)"
    using assms by (simp add: scenario_content_def scanned_file_def syllabus_file_def)
qed

lemma env_of_simps [simp]:
  "service (env_of svc) = svc" "JSON_parse (env_of svc) = array_parse"
  by (simp_all add: env_of_def)

text \<open>The three services at work.\<close>

lemma answering_models:
  "try_models (env_of answering_service) scenario_content modelsToTry None =
     (Inr (JArray []), announce ''Gemini 3 Flash'' @ [Call ''gemini-3-flash-preview'' 1])"
proof -
  have "try_block (env_of answering_service) scenario_content ''gemini-3-flash-preview'' =
      (Inr (JArray []), [Call ''gemini-3-flash-preview'' 1])"
    by (simp add: try_block_resolves[where t = "''[]''"] answering_service_def processResponse_array)
  then show ?thesis
    by (simp add: modelsToTry_def)
qed






text \<open>The witness of C1: two scans without a text layer are rejected at the gate; a scan
  and a syllabus pass it and the run returns the analysis.\<close>

theorem analyzeExamStrategy_gate_witness:
  "analyzeExamStrategy (env_of answering_service) scanned_file scanned_file =
     (Inl gate_error, [Progress ''Step 1: Extracting PDFs...''])
   \<and> extracted_or_empty scanned_file = []
   \<and> fst (analyzeExamStrategy (env_of answering_service) scanned_file syllabus_file) = Inr (JArray [])"
proof -
  have n: "pdf_pages scanned_file = None" by (simp add: scanned_file_def)
  from analyzeExamStrategy_gate[of scanned_file scanned_file "env_of answering_service"]
    scenario_gate_fails n
  have "analyzeExamStrategy (env_of answering_service) scanned_file scanned_file =
     (Inl gate_error, [Progress ''Step 1: Extracting PDFs...''])"
    and "extracted_or_empty scanned_file = []"
    by simp_all
  moreover have "fst (analyzeExamStrategy (env_of answering_service) scanned_file syllabus_file) =
      Inr (JArray [])"
    by (simp add: scenario_run[OF answering_models])
  ultimately show ?thesis by simp
qed



section \<open>Properties of the upload gate\<close>

text \<open>
  Claim C8. For every selected PDF file: if the quick keyword check on the extracted prefix
  fails, the file is held as pending and the warning is shown; confirming accepts the file
  as it is, cancelling discards it and empties the slot. If the extraction throws, the file
  is accepted at once, without a warning.
\<close>

theorem upload_gate:
  "(endsWith (toLowerCase (file_name f)) ''.pdf'' \<and> extractTextFromPdf f 1500 = Some text \<and>
      \<not> hasMinimumAcademicKeywords text 1000 2
     \<longrightarrow> pendingFile (validateAndSetFile s (Some f)) = Some f \<and>
         showAcademicWarning (validateAndSetFile s (Some f)) \<and>
         slot (validateAndSetFile s (Some f)) = slot s \<and>
         render (validateAndSetFile s (Some f)) = Warning f \<and>
         slot (handleConfirmAnyway (validateAndSetFile s (Some f))) = Some f \<and>
         render (handleConfirmAnyway (validateAndSetFile s (Some f))) = Ready f \<and>
         slot (handleCancelWarning (validateAndSetFile s (Some f))) = None \<and>
         pendingFile (handleCancelWarning (validateAndSetFile s (Some f))) = None \<and>
         render (handleCancelWarning (validateAndSetFile s (Some f))) = Empty)
   \<and> (endsWith (toLowerCase (file_name f)) ''.pdf'' \<and> extractTextFromPdf f 1500 = None
     \<longrightarrow> slot (validateAndSetFile s (Some f)) = Some f \<and>
         pendingFile (validateAndSetFile s (Some f)) = None \<and>
         \<not> showAcademicWarning (validateAndSetFile s (Some f)) \<and>
         render (validateAndSetFile s (Some f)) = Ready f)"
  by (auto simp: validateAndSetFile_def handleConfirmAnyway_def handleCancelWarning_def
      render_def Let_def)

lemma receipt_checks:
  "endsWith (toLowerCase (file_name receipt_file)) ''.pdf''"
  "extractTextFromPdf receipt_file 1500 = Some (''total amount due thank you for riding'' @ [CHR 0x0A])"
  "\<not> hasMinimumAcademicKeywords (''total amount due thank you for riding'' @ [CHR 0x0A]) 1000 2"
  by (simp_all add: receipt_file_def endsWith_def extractTextFromPdf_def heuristic_eval)

lemma scan_checks:
  "endsWith (toLowerCase (file_name scanned_file)) ''.pdf''"
  "extractTextFromPdf scanned_file 1500 = None"
  by (simp_all add: scanned_file_def endsWith_def extractTextFromPdf_def heuristic_eval)

text \<open>The witness: a receipt, whose text has no keyword, and a scan, whose extraction
  throws, dropped on an empty zone.\<close>

theorem upload_gate_witness:
  "render (validateAndSetFile empty_dropzone (Some receipt_file)) = Warning receipt_file
   \<and> render (handleConfirmAnyway (validateAndSetFile empty_dropzone (Some receipt_file))) =
       Ready receipt_file
   \<and> render (handleCancelWarning (validateAndSetFile empty_dropzone (Some receipt_file))) = Empty
   \<and> render (validateAndSetFile empty_dropzone (Some scanned_file)) = Ready scanned_file"
  using upload_gate[of receipt_file "''total amount due thank you for riding'' @ [CHR 0x0A]" empty_dropzone]
    upload_gate[of scanned_file _ empty_dropzone] receipt_checks scan_checks
  by simp

section \<open>Properties of the export\<close>

lemma sortedTopics_mset: "mset (sortedTopics ts) = mset ts"
  by (simp add: sortedTopics_def)

lemma sortedTopics_descending:
  "sorted_wrt (\<lambda>x y. confidence y \<le> confidence x) (sortedTopics ts)"
proof -
  have "sorted (map (\<lambda>t. - confidence t) (sortedTopics ts))"
    by (simp add: sortedTopics_def)
  then show ?thesis by (simp add: sorted_map)
qed

lemma star_marker_section:
  "star_marker \<in> set (topic_section index t) \<longleftrightarrow> effort t = ''Low'' \<and> reward t = ''High''"
  by (auto simp: topic_section_def star_marker_def split: option.splits)

lemma export_date:
  assumes "topics a = Some ts"
  shows "(exportToMarkdown d1 (Some a) = exportToMarkdown d2 (Some a)) = (d1 = d2)"
proof -
  obtain rest where r: "\<And>d. exportToMarkdown d (Some a) =
      Some ((''# NITP Exam Priority List'' @ [CHR 0x0A, CHR 0x0A]) @ ''*Generated on '' @ d @ rest)"
    using assms by (simp add: exportToMarkdown_def header_chunks_def)
  show ?thesis by (simp add: r)
qed

text \<open>
  Claim C9, as amended. Formatting the same analysis twice on the same date (the same
  string of \<^verbatim>\<open>toLocaleDateString\<close>) yields the same markup, and on two different dates two
  different markups. The markup is the header followed by one section per topic, the
  topics sorted by confidence, descending; a section carries the marked line "Low Effort,
  High Reward Topic" exactly when the effort is "Low" and the reward is "High".
\<close>

theorem exportToMarkdown_same_date:
  "(topics a = Some ts
     \<longrightarrow> exportToMarkdown today (Some a) =
           Some (concat (header_chunks today a @
                   concat (map (\<lambda>(index, topic). topic_section index topic)
                             (enumerate 0 (sortedTopics ts))))) \<and>
         mset (sortedTopics ts) = mset ts \<and>
         sorted_wrt (\<lambda>x y. confidence y \<le> confidence x) (sortedTopics ts) \<and>
         (exportToMarkdown d1 (Some a) = exportToMarkdown d2 (Some a)) = (d1 = d2))
   \<and> (star_marker \<in> set (topic_section index t)) = (effort t = ''Low'' \<and> reward t = ''High'')"
proof (intro conjI impI)
  assume t: "topics a = Some ts"
  then show "exportToMarkdown today (Some a) =
           Some (concat (header_chunks today a @
                   concat (map (\<lambda>(index, topic). topic_section index topic)
                             (enumerate 0 (sortedTopics ts)))))"
    by (simp add: exportToMarkdown_def)
  show "mset (sortedTopics ts) = mset ts"
    by (rule sortedTopics_mset)
  show "sorted_wrt (\<lambda>x y. confidence y \<le> confidence x) (sortedTopics ts)"
    by (rule sortedTopics_descending)
  show "(exportToMarkdown d1 (Some a) = exportToMarkdown d2 (Some a)) = (d1 = d2)"
    using t by (rule export_date)
next
  show "(star_marker \<in> set (topic_section index t)) = (effort t = ''Low'' \<and> reward t = ''High'')"
    by (rule star_marker_section)
qed

text \<open>Claim C9 as it is stated fails: the markup holds the date of the export, and the same
  analysis formatted on two days gives two different texts.\<close>

theorem exportToMarkdown_counterexample:
  "exportToMarkdown ''1/1/2026'' (Some sample_analysis) \<noteq>
   exportToMarkdown ''1/2/2026'' (Some sample_analysis)"
proof -
  have "topics sample_analysis = Some sample_topics"
    by (simp add: sample_analysis_def)
  from export_date[OF this, of "''1/1/2026''" "''1/2/2026''"] show ?thesis by simp
qed

text \<open>The witness: two topics, the second of which has the higher confidence, low effort
  and high reward.\<close>

theorem exportToMarkdown_same_date_witness:
  "sorted_wrt (\<lambda>x y. confidence y \<le> confidence x) (sortedTopics sample_topics)
   \<and> map topic_name (sortedTopics sample_topics) = [''Hashing'', ''Graphs'']
   \<and> exportToMarkdown ''1/1/2026'' (Some sample_analysis) =
       Some (concat (header_chunks ''1/1/2026'' sample_analysis @
                   concat (map (\<lambda>(index, topic). topic_section index topic)
                             (enumerate 0 (sortedTopics sample_topics)))))
   \<and> star_marker \<in> set (topic_section 0 (hd (sortedTopics sample_topics)))"
proof -
  have t: "topics sample_analysis = Some sample_topics"
    by (simp add: sample_analysis_def)
  have s: "sortedTopics sample_topics = rev sample_topics"
    by (simp add: sortedTopics_def sample_topics_def)
  have n: "map topic_name (sortedTopics sample_topics) = [''Hashing'', ''Graphs'']"
    by (simp add: s) (simp add: sample_topics_def)
  have h: "effort (hd (sortedTopics sample_topics)) = ''Low'' \<and>
      reward (hd (sortedTopics sample_topics)) = ''High''"
    by (simp add: s) (simp add: sample_topics_def)
  from exportToMarkdown_same_date[of sample_analysis sample_topics "''1/1/2026''" _ _ 0
      "hd (sortedTopics sample_topics)"] t n h
  show ?thesis by simp
qed

end
